theory Spec2Isabelle
  imports Main "HOL-Library.Word"
begin

section \<open>The capture engine of src/capture.c\<close>

text \<open>
  The capture supervisor \<open>capture_loop\<close> and its helpers, embedded function by function.

  The code talks to its surroundings through \<open>select\<close>, \<open>xioctl\<close>, \<open>calloc\<close>, the
  pthread calls, \<open>device_open\<close>, \<open>device_close\<close>, \<open>jpeg_compress_buffer\<close> and the
  \<open>stop\<close> flag. None of them is defined in capture.c, so each one is a parameter of the
  model: the record \<open>env\<close> holds, for every kind of call, the answer the surroundings
  give as a function of the moment the call is made. The moment is the field \<open>clock\<close> of
  the state: the number of observations of the surroundings made so far. Every call
  that asks the surroundings something reads its answer at the current clock and
  advances the clock by one; calls with an effect are also appended to \<open>trace\<close>, the
  list of calls made so far, with their arguments and results.
\<close>

type_synonym u32 = "32 word"

subsection \<open>Data\<close>

text \<open>
  \<open>struct device\<close> (device.h): the fields capture.c reads in its control flow and hands
  to \<open>select\<close> and \<open>sleep\<close>. The other fields (path, width, height, format, standard,
  dv_timings, n_buffers, jpeg_quality) are only logged or only used by device.c.
\<close>

record device =
  every_frame :: u32
  min_frame_size :: u32
  timeout :: u32
  error_timeout :: u32

text \<open>The two fields of \<open>struct v4l2_buffer\<close> that capture.c reads after VIDIOC_DQBUF.\<close>

record v4l2_buffer =
  index :: u32
  bytesused :: u32

text \<open>What \<open>select\<close> hands back: its return value, whether \<open>errno\<close> is \<open>EINTR\<close>, and
  whether the descriptor is still set in the read, write and error sets.\<close>

record select_result =
  sel_retval :: int
  sel_eintr :: bool
  sel_read :: bool
  sel_write :: bool
  sel_error :: bool

datatype pthread_call =
  Mutex_init | Cond_init | Thread_create | Thread_join | Cond_destroy | Mutex_destroy

datatype event =
    Ev_select u32
  | Ev_dqbuf int u32 u32
  | Ev_qbuf u32 int
  | Ev_compress u32
  | Ev_streamon int
  | Ev_streamoff int
  | Ev_dqevent int u32
  | Ev_open int
  | Ev_close
  | Ev_sleep u32
  | Ev_calloc u32 bool
  | Ev_free
  | Ev_pool pthread_call int
  | Ev_worker nat pthread_call int

text \<open>
  The state: the clock and the trace, the fields of \<open>struct device_runtime\<close> (device.h)
  that capture.c reads or writes (\<open>dev->run->fd\<close>, \<open>n_buffers\<close>, \<open>capturing\<close>),
  whether \<open>pool->workers\<close> is not \<open>NULL\<close>, and for the threads created in that array
  (\<open>pool->workers[0].tid\<close>, \<open>pool->workers[1].tid\<close>, ...) the moment from which each one
  runs. \<open>pool_threads\<close> means something only while \<open>pool_workers\<close> holds.
\<close>

record world =
  clock :: nat
  trace :: "event list"
  run_fd :: int
  run_n_buffers :: u32
  run_capturing :: bool
  pool_workers :: bool
  pool_threads :: "nat list"

text \<open>
  The surroundings. \<open>stop_sig t\<close> is the value of \<open>*stop\<close> at moment \<open>t\<close>. An ioctl answers
  with the return value of \<open>xioctl\<close> and what it wrote through its argument:
  VIDIOC_DQBUF the return value, \<open>buf->index\<close> and \<open>buf->bytesused\<close>; VIDIOC_DQEVENT the
  return value and \<open>event.type\<close>. \<open>device_open\<close> answers with its return value and the
  descriptor and buffer count it leaves in \<open>dev->run\<close>; \<open>device_close\<close> with the
  descriptor and buffer count it leaves there. A pthread call answers with its return
  value.
\<close>

record env =
  stop_sig :: "nat \<Rightarrow> bool"
  select_res :: "nat \<Rightarrow> select_result"
  dqbuf_res :: "nat \<Rightarrow> int \<times> u32 \<times> u32"
  qbuf_ret :: "nat \<Rightarrow> int"
  stream_ret :: "nat \<Rightarrow> int"
  dqevent_res :: "nat \<Rightarrow> int \<times> u32"
  open_res :: "nat \<Rightarrow> int \<times> int \<times> u32"
  close_res :: "nat \<Rightarrow> int \<times> u32"
  calloc_ok :: "nat \<Rightarrow> bool"
  pthread_ret :: "nat \<Rightarrow> int"

text \<open>
  A function with a loop that may not end takes fuel, and \<open>Out_of_fuel\<close> is its value
  when the fuel does not suffice; a function that can hit a failing \<open>assert\<close> has the
  value \<open>Aborted\<close> there (the process is gone); \<open>Returned r w\<close> is a return with value
  \<open>r\<close> in state \<open>w\<close>. All three carry the state reached.
\<close>

datatype 'a exec = Out_of_fuel world | Aborted world | Returned 'a world

definition exec_bind :: "'a exec \<Rightarrow> ('a \<Rightarrow> world \<Rightarrow> 'b exec) \<Rightarrow> 'b exec" where
  "exec_bind m f =
     (case m of Out_of_fuel w \<Rightarrow> Out_of_fuel w | Aborted w \<Rightarrow> Aborted w | Returned x w \<Rightarrow> f x w)"

fun final_world :: "'a exec \<Rightarrow> world" where
  "final_world (Out_of_fuel w) = w"
| "final_world (Aborted w) = w"
| "final_world (Returned x w) = w"

definition emit :: "event \<Rightarrow> world \<Rightarrow> world" where
  "emit e w = w\<lparr>trace := trace w @ [e]\<rparr>"

definition tick :: "world \<Rightarrow> world" where
  "tick w = w\<lparr>clock := Suc (clock w)\<rparr>"

definition step :: "event \<Rightarrow> world \<Rightarrow> world" where
  "step e w = tick (emit e w)"

subsection \<open>Collaborators that are not in capture.c\<close>

text \<open>
  Modelled from the spec: \<open>device_open\<close> and \<open>device_close\<close> (device.c is not among the
  sources; device.h declares them). The spec's section 6 gives
  \<open>open(config) -> Session|Error\<close> and \<open>close(session)\<close>, the session holding the
  descriptor and the negotiated buffer count. What the two calls leave in
  \<open>dev->run->fd\<close> and \<open>dev->run->n_buffers\<close> is taken from the surroundings, on success
  and on failure alike; \<open>dev->run->capturing\<close> is left to the stream controller.
\<close>

definition device_open :: "env \<Rightarrow> world \<Rightarrow> int \<times> world" where
  "device_open env w =
     (case open_res env (clock w) of (r, f, n) \<Rightarrow>
        (r, step (Ev_open r) (w\<lparr>run_fd := f, run_n_buffers := n\<rparr>)))"

definition device_close :: "env \<Rightarrow> world \<Rightarrow> world" where
  "device_close env w =
     (case close_res env (clock w) of (f, n) \<Rightarrow>
        step Ev_close (w\<lparr>run_fd := f, run_n_buffers := n\<rparr>))"

text \<open>
  Modelled from the spec: \<open>jpeg_compress_buffer\<close> (jpeg.c is not among the sources):
  \<open>compress(session, buffer_index)\<close>, fire-and-forget. It asks the surroundings nothing,
  so it is recorded in the trace and leaves the clock alone.
\<close>

definition jpeg_compress_buffer :: "u32 \<Rightarrow> world \<Rightarrow> world" where
  "jpeg_compress_buffer i w = emit (Ev_compress i) w"

text \<open>The two event types of linux/videodev2.h that \<open>_capture_handle_event\<close> names.\<close>

definition V4L2_EVENT_EOS :: u32 where
  "V4L2_EVENT_EOS = 2"

definition V4L2_EVENT_SOURCE_CHANGE :: u32 where
  "V4L2_EVENT_SOURCE_CHANGE = 5"

text \<open>Reading \<open>*stop\<close>: the value at the current moment, and the clock moves on.\<close>

definition read_stop :: "env \<Rightarrow> world \<Rightarrow> bool \<times> world" where
  "read_stop env w = (stop_sig env (clock w), tick w)"

text \<open>\<open>assert(!pthread_xxx(...))\<close>: the call is made; a return value other than 0 aborts.\<close>

definition assert_pthread :: "env \<Rightarrow> (int \<Rightarrow> event) \<Rightarrow> world \<Rightarrow> unit exec" where
  "assert_pthread env ev w =
     (let r = pthread_ret env (clock w); w1 = step (ev r) w
      in if r = 0 then Returned () w1 else Aborted w1)"

subsection \<open>Stream controller, buffer exchange, event monitor\<close>

text \<open>\<open>_capture_control\<close> (capture.c, lines 229 to 245).\<close>

definition capture_control :: "env \<Rightarrow> bool \<Rightarrow> world \<Rightarrow> int \<times> world" where
  "capture_control env enable w =
     (if enable \<noteq> run_capturing w then
        let r = stream_ret env (clock w);
            w1 = step (if enable then Ev_streamon r else Ev_streamoff r) w
        in if r < 0 \<and> enable then (- 1, w1)
           else (0, w1\<lparr>run_capturing := enable\<rparr>)
      else (0, w))"

text \<open>\<open>_capture_grab_buffer\<close> (lines 247 to 264).\<close>

definition capture_grab_buffer :: "env \<Rightarrow> world \<Rightarrow> int \<times> v4l2_buffer \<times> world" where
  "capture_grab_buffer env w =
     (case dqbuf_res env (clock w) of (r, i, used) \<Rightarrow>
        let buf = \<lparr>index = i, bytesused = used\<rparr>;
            w1 = step (Ev_dqbuf r i used) w
        in if r < 0 then (- 1, buf, w1)
           else if run_n_buffers w1 \<le> index buf then (- 1, buf, w1)
           else (0, buf, w1))"

text \<open>\<open>_capture_release_buffer\<close> (lines 266 to 273).\<close>

definition capture_release_buffer :: "env \<Rightarrow> v4l2_buffer \<Rightarrow> world \<Rightarrow> int \<times> world" where
  "capture_release_buffer env buf w =
     (let r = qbuf_ret env (clock w); w1 = step (Ev_qbuf (index buf) r) w
      in if r < 0 then (- 1, w1) else (0, w1))"

text \<open>\<open>_capture_handle_event\<close> (lines 275 to 292).\<close>

definition capture_handle_event :: "env \<Rightarrow> world \<Rightarrow> int \<times> world" where
  "capture_handle_event env w =
     (case dqevent_res env (clock w) of (r, ty) \<Rightarrow>
        let w1 = step (Ev_dqevent r ty) w
        in if r = 0 then
             (if ty = V4L2_EVENT_SOURCE_CHANGE then (- 1, w1)
              else if ty = V4L2_EVENT_EOS then (0, w1)
              else (0, w1))
           else (0, w1))"

subsection \<open>The mainloop of one session\<close>

text \<open>
  How one pass through the body of the inner \<open>while\<close> ends: at a \<open>break\<close>, or at the end
  of the body with the value of \<open>frames_count\<close> for the next pass.
\<close>

datatype loop_ctl = Break | Continue int

text \<open>
  Lines 80 to 101: the frame-skip policy, the size check and the hand-over to the
  compressor; both \<open>goto pass_frame\<close> and the fall-through end at the release of line 106.
  \<open>frames_count\<close> is a C \<open>int\<close>. The bound of line 81, \<open>(int)dev->every_frame - 1\<close>, is
  computed in 32-bit \<open>int\<close>: the conversion keeps the bits (\<open>sint\<close>) and the subtraction
  wraps around, so the bound is \<open>sint (every_frame - 1)\<close> with the subtraction taken on
  the word (for \<open>every_frame\<close> = 0x80000000 the bound is the largest \<open>int\<close>). The
  counter is only incremented below that bound, so it never overflows and is an
  \<open>int\<close> here.
\<close>

definition frame_policy :: "device \<Rightarrow> int \<Rightarrow> v4l2_buffer \<Rightarrow> world \<Rightarrow> int \<times> world" where
  "frame_policy dev frames_count buf w =
     (if every_frame dev \<noteq> 0 \<and> frames_count < sint (every_frame dev - 1)
      then (frames_count + 1, w)
      else
        let fc = (if every_frame dev \<noteq> 0 then 0 else frames_count)
        in if bytesused buf < min_frame_size dev then (fc, w)
           else (fc, jpeg_compress_buffer (index buf) w))"

text \<open>Lines 71 to 109: the descriptor is in the read set.\<close>

definition frame_ready :: "env \<Rightarrow> device \<Rightarrow> int \<Rightarrow> world \<Rightarrow> loop_ctl \<times> world" where
  "frame_ready env dev frames_count w =
     (case capture_grab_buffer env w of (r, buf, w1) \<Rightarrow>
        if r < 0 then (Break, w1)
        else
          (case frame_policy dev frames_count buf w1 of (fc, w2) \<Rightarrow>
             (case capture_release_buffer env buf w2 of (r2, w3) \<Rightarrow>
                if r2 < 0 then (Break, w3) else (Continue fc, w3))))"

text \<open>Lines 37 to 122: the body of the inner \<open>while\<close>.\<close>

definition mainloop_body :: "env \<Rightarrow> device \<Rightarrow> int \<Rightarrow> world \<Rightarrow> loop_ctl \<times> world" where
  "mainloop_body env dev frames_count w =
     (let sel = select_res env (clock w); w1 = step (Ev_select (timeout dev)) w
      in if sel_retval sel < 0 then
           (if \<not> sel_eintr sel then (Break, w1) else (Continue frames_count, w1))
         else if sel_retval sel = 0 then (Break, w1)
         else
           (case (if sel_read sel then frame_ready env dev frames_count w1
                  else (Continue frames_count, w1)) of
              (Break, w2) \<Rightarrow> (Break, w2)
            | (Continue fc, w2) \<Rightarrow>
                if sel_write sel then (Break, w2)
                else if sel_error sel then
                  (case capture_handle_event env w2 of (r, w3) \<Rightarrow>
                     if r < 0 then (Break, w3) else (Continue fc, w3))
                else (Continue fc, w2)))"

text \<open>How the inner \<open>while\<close> was left: through its condition, or through a \<open>break\<close>.\<close>

datatype loop_exit = Exit_stop | Exit_break

text \<open>Lines 36 to 123: the inner \<open>while (!(*stop))\<close>.\<close>

fun mainloop :: "nat \<Rightarrow> env \<Rightarrow> device \<Rightarrow> int \<Rightarrow> world \<Rightarrow> loop_exit exec" where
  "mainloop 0 env dev frames_count w = Out_of_fuel w"
| "mainloop (Suc n) env dev frames_count w =
     (case read_stop env w of (s, w1) \<Rightarrow>
        if s then Returned Exit_stop w1
        else
          (case mainloop_body env dev frames_count w1 of
             (Break, w2) \<Rightarrow> Returned Exit_break w2
           | (Continue fc, w2) \<Rightarrow> mainloop n env dev fc w2))"

subsection \<open>The worker pool\<close>

text \<open>
  Lines 181 to 196: the \<open>for\<close> loop of \<open>_capture_init_workers\<close>, from \<open>index\<close> up to
  \<open>n\<close> = \<open>dev->run->n_buffers\<close>. The loop counter stays below \<open>n\<close>, so it does not wrap
  and is a \<open>nat\<close> here. A thread that \<open>pthread_create\<close> has created runs from the
  moment after that call.
\<close>

function spawn_workers :: "env \<Rightarrow> nat \<Rightarrow> nat \<Rightarrow> world \<Rightarrow> unit exec" where
  "spawn_workers env n i w =
     (if i < n then
        exec_bind (assert_pthread env (Ev_worker i Mutex_init) w) (\<lambda>_ w1.
        exec_bind (assert_pthread env (Ev_worker i Cond_init) w1) (\<lambda>_ w2.
        exec_bind (assert_pthread env (Ev_worker i Thread_create) w2) (\<lambda>_ w3.
        spawn_workers env n (Suc i) (w3\<lparr>pool_threads := pool_threads w3 @ [clock w3]\<rparr>))))
      else Returned () w)"
  by pat_completeness auto
termination
  by (relation "measure (\<lambda>(env, n, i, w). n - i)") auto

text \<open>\<open>_capture_init_workers\<close> (lines 169 to 200). The array \<open>calloc\<close> returns holds no
  thread yet.\<close>

definition capture_init_workers :: "env \<Rightarrow> world \<Rightarrow> int exec" where
  "capture_init_workers env w =
     (let ok = calloc_ok env (clock w);
          w1 = step (Ev_calloc (run_n_buffers w) ok) (w\<lparr>pool_workers := ok\<rparr>)
      in if \<not> ok then Returned (- 1) w1
         else
           exec_bind (assert_pthread env (Ev_pool Mutex_init) (w1\<lparr>pool_threads := []\<rparr>)) (\<lambda>_ w2.
           exec_bind (assert_pthread env (Ev_pool Cond_init) w2) (\<lambda>_ w3.
           exec_bind (spawn_workers env (unat (run_n_buffers w3)) 0 w3) (\<lambda>_ w4.
           Returned 0 w4))))"

text \<open>
  \<open>_capture_worker_thread\<close> (lines 202 to 210): \<open>while (!*(params.stop));\<close>. Each pass
  reads the flag once, at the thread's own current moment.
\<close>

fun capture_worker_thread :: "nat \<Rightarrow> env \<Rightarrow> world \<Rightarrow> unit exec" where
  "capture_worker_thread 0 env w = Out_of_fuel w"
| "capture_worker_thread (Suc n) env w =
     (case read_stop env w of (s, w1) \<Rightarrow>
        if s then Returned () w1 else capture_worker_thread n env w1)"

text \<open>
  Waiting in \<open>pthread_join\<close> for a thread that runs from moment \<open>s\<close>. The thread runs
  beside the supervisor: its body is run from \<open>s\<close> on a copy of the state, whatever the
  supervisor does meanwhile, and the supervisor goes on at the later of the two
  moments, the one at which it called and the one at which the thread returned. The
  thread changes nothing else. If the thread never returns, neither does the call.
\<close>

definition join_thread :: "nat \<Rightarrow> env \<Rightarrow> nat \<Rightarrow> world \<Rightarrow> unit exec" where
  "join_thread fuel env s w =
     (case capture_worker_thread fuel env (w\<lparr>clock := s\<rparr>) of
        Returned _ wt \<Rightarrow> Returned () (w\<lparr>clock := max (clock w) (clock wt)\<rparr>)
      | Out_of_fuel wt \<Rightarrow> Out_of_fuel (w\<lparr>clock := max (clock w) (clock wt)\<rparr>)
      | Aborted wt \<Rightarrow> Aborted w)"

text \<open>
  Lines 215 to 219: the \<open>for\<close> loop of \<open>_capture_destroy_workers\<close>. A slot of the array
  in which no thread was created has nothing \<open>pthread_join\<close> could wait for, and the
  process does not survive the call; the supervisor never gets there, since a pool it
  has built holds \<open>n_buffers\<close> threads.
\<close>

function join_workers :: "nat \<Rightarrow> env \<Rightarrow> nat \<Rightarrow> nat \<Rightarrow> world \<Rightarrow> unit exec" where
  "join_workers fuel env n i w =
     (if i < n then
        (if i < length (pool_threads w) then
           exec_bind (join_thread fuel env (pool_threads w ! i) w) (\<lambda>_ w1.
           exec_bind (assert_pthread env (Ev_worker i Thread_join) w1) (\<lambda>_ w2.
           exec_bind (assert_pthread env (Ev_worker i Cond_destroy) w2) (\<lambda>_ w3.
           exec_bind (assert_pthread env (Ev_worker i Mutex_destroy) w3) (\<lambda>_ w4.
           join_workers fuel env n (Suc i) w4))))
         else Aborted w)
      else Returned () w)"
  by pat_completeness auto
termination
  by (relation "measure (\<lambda>(fuel, env, n, i, w). n - i)") auto

text \<open>\<open>_capture_destroy_workers\<close> (lines 212 to 227).\<close>

definition capture_destroy_workers :: "nat \<Rightarrow> env \<Rightarrow> world \<Rightarrow> unit exec" where
  "capture_destroy_workers fuel env w =
     (if pool_workers w then
        exec_bind (join_workers fuel env (unat (run_n_buffers w)) 0 w) (\<lambda>_ w1.
        exec_bind (assert_pthread env (Ev_pool Cond_destroy) w1) (\<lambda>_ w2.
        exec_bind (assert_pthread env (Ev_pool Mutex_destroy) w2) (\<lambda>_ w3.
        Returned () ((emit Ev_free w3)\<lparr>pool_workers := False, pool_threads := []\<rparr>))))
      else Returned () (w\<lparr>pool_workers := False\<rparr>))"

subsection \<open>The supervisor\<close>

text \<open>\<open>_capture_init\<close> (lines 145 to 167).\<close>

definition capture_init :: "nat \<Rightarrow> env \<Rightarrow> device \<Rightarrow> world \<Rightarrow> int exec" where
  "capture_init fuel env dev w =
     exec_bind (capture_destroy_workers fuel env w) (\<lambda>_ w1.
       (case capture_control env False w1 of (_, w2) \<Rightarrow>
          (case device_open env (device_close env w2) of (r, w4) \<Rightarrow>
             if r < 0 then Returned (- 1) (device_close env w4)
             else
               (case capture_control env True w4 of (r2, w5) \<Rightarrow>
                  if r2 < 0 then Returned (- 1) (device_close env w5)
                  else
                    exec_bind (capture_init_workers env w5) (\<lambda>r3 w6.
                      if r3 < 0 then Returned (- 1) (device_close env w6)
                      else Returned 0 w6)))))"

text \<open>
  \<open>_capture_init_loop\<close> (lines 131 to 143). \<open>retval\<close> is the local of that name: \<open>- 1\<close> at
  the start, afterwards the result of the last \<open>_capture_init\<close>.
\<close>

fun capture_init_loop_from :: "nat \<Rightarrow> env \<Rightarrow> device \<Rightarrow> int \<Rightarrow> world \<Rightarrow> int exec" where
  "capture_init_loop_from 0 env dev retval w = Out_of_fuel w"
| "capture_init_loop_from (Suc n) env dev retval w =
     (case read_stop env w of (s, w1) \<Rightarrow>
        if s then Returned retval w1
        else
          exec_bind (capture_init n env dev w1) (\<lambda>r w2.
            if r < 0 then
              capture_init_loop_from n env dev r (step (Ev_sleep (error_timeout dev)) w2)
            else Returned r w2))"

definition capture_init_loop :: "nat \<Rightarrow> env \<Rightarrow> device \<Rightarrow> world \<Rightarrow> int exec" where
  "capture_init_loop fuel env dev w = capture_init_loop_from fuel env dev (- 1) w"

text \<open>Lines 33 to 124: the outer \<open>while\<close> of \<open>capture_loop\<close>.\<close>

fun sessions :: "nat \<Rightarrow> env \<Rightarrow> device \<Rightarrow> world \<Rightarrow> unit exec" where
  "sessions 0 env dev w = Out_of_fuel w"
| "sessions (Suc n) env dev w =
     exec_bind (capture_init_loop n env dev w) (\<lambda>r w1.
       if r = 0 then
         exec_bind (mainloop n env dev 0 w1) (\<lambda>_ w2. sessions n env dev w2)
       else Returned () w1)"

text \<open>\<open>capture_loop\<close> (lines 25 to 129). \<open>MEMSET_ZERO(pool)\<close> makes \<open>pool.workers\<close> \<open>NULL\<close>.\<close>

definition capture_loop :: "nat \<Rightarrow> env \<Rightarrow> device \<Rightarrow> world \<Rightarrow> unit exec" where
  "capture_loop fuel env dev w =
     exec_bind (sessions fuel env dev (w\<lparr>pool_workers := False\<rparr>)) (\<lambda>_ w1.
     exec_bind (capture_destroy_workers fuel env w1) (\<lambda>_ w2.
       (case capture_control env False w2 of (_, w3) \<Rightarrow>
          Returned () (device_close env w3))))"

subsection \<open>Reading a trace\<close>

text \<open>The state after \<open>k\<close> more observations of the surroundings and the calls \<open>tr\<close>.\<close>

definition advance :: "world \<Rightarrow> nat \<Rightarrow> event list \<Rightarrow> world" where
  "advance w k tr = w\<lparr>clock := clock w + k, trace := trace w @ tr\<rparr>"

text \<open>
  The buffer handshake, read off a trace. \<open>n\<close> is the session's buffer count and \<open>held\<close>
  the index of the buffer the application owns, if any. A VIDIOC_DQBUF that returned a
  non-negative value and an index below \<open>n\<close> is an acquisition (\<open>_capture_grab_buffer\<close>
  returned 0): nothing may be held then, and the buffer is held from there on. A
  VIDIOC_QBUF is a release: it must name the buffer held, and nothing is held after it.
  At the end of the trace nothing may be held.
\<close>

fun exchange_ok :: "u32 \<Rightarrow> u32 option \<Rightarrow> event list \<Rightarrow> bool" where
  "exchange_ok n held [] = (held = None)"
| "exchange_ok n held (e # es) =
     (case e of
        Ev_dqbuf r i used \<Rightarrow>
          if 0 \<le> r \<and> i < n then held = None \<and> exchange_ok n (Some i) es
          else exchange_ok n held es
      | Ev_qbuf i r \<Rightarrow> held = Some i \<and> exchange_ok n None es
      | _ \<Rightarrow> exchange_ok n held es)"

text \<open>The buffer indices handed to the compressor, dequeued and requeued, in order.\<close>

fun forwarded :: "event list \<Rightarrow> u32 list" where
  "forwarded [] = []"
| "forwarded (e # es) = (case e of Ev_compress i \<Rightarrow> i # forwarded es | _ \<Rightarrow> forwarded es)"

fun dequeued :: "event list \<Rightarrow> u32 list" where
  "dequeued [] = []"
| "dequeued (e # es) = (case e of Ev_dqbuf r i used \<Rightarrow> i # dequeued es | _ \<Rightarrow> dequeued es)"

fun released :: "event list \<Rightarrow> u32 list" where
  "released [] = []"
| "released (e # es) = (case e of Ev_qbuf i r \<Rightarrow> i # released es | _ \<Rightarrow> released es)"

text \<open>The number of VIDIOC_STREAMON calls in a trace.\<close>

fun starts :: "event list \<Rightarrow> nat" where
  "starts [] = 0"
| "starts (e # es) = (case e of Ev_streamon r \<Rightarrow> Suc (starts es) | _ \<Rightarrow> starts es)"

text \<open>
  What the supervisor has to give back: the worker array, the stream it started, the
  pool's mutex and condition variable, and each worker's mutex, condition variable and
  thread.
\<close>

datatype resource =
    Res_array | Res_stream | Res_pool_mutex | Res_pool_cond
  | Res_mutex nat | Res_cond nat | Res_thread nat

text \<open>
  The resource a call brings into being, and the resource a call gives back. A pthread
  call counts when it returned 0, a VIDIOC_STREAMON when it did not fail, a \<open>calloc\<close> when
  it did not return \<open>NULL\<close>. A VIDIOC_STREAMOFF counts as the stop of the stream whatever
  it returned, as \<open>_capture_control\<close> takes it.
\<close>

fun gained :: "event \<Rightarrow> resource option" where
  "gained (Ev_calloc n ok) = (if ok then Some Res_array else None)"
| "gained (Ev_streamon r) = (if 0 \<le> r then Some Res_stream else None)"
| "gained (Ev_pool c r) =
     (if r = 0 then
        (case c of Mutex_init \<Rightarrow> Some Res_pool_mutex | Cond_init \<Rightarrow> Some Res_pool_cond
         | _ \<Rightarrow> None)
      else None)"
| "gained (Ev_worker i c r) =
     (if r = 0 then
        (case c of Mutex_init \<Rightarrow> Some (Res_mutex i) | Cond_init \<Rightarrow> Some (Res_cond i)
         | Thread_create \<Rightarrow> Some (Res_thread i) | _ \<Rightarrow> None)
      else None)"
| "gained _ = None"

fun dropped :: "event \<Rightarrow> resource option" where
  "dropped Ev_free = Some Res_array"
| "dropped (Ev_streamoff r) = Some Res_stream"
| "dropped (Ev_pool c r) =
     (if r = 0 then
        (case c of Mutex_destroy \<Rightarrow> Some Res_pool_mutex | Cond_destroy \<Rightarrow> Some Res_pool_cond
         | _ \<Rightarrow> None)
      else None)"
| "dropped (Ev_worker i c r) =
     (if r = 0 then
        (case c of Mutex_destroy \<Rightarrow> Some (Res_mutex i) | Cond_destroy \<Rightarrow> Some (Res_cond i)
         | Thread_join \<Rightarrow> Some (Res_thread i) | _ \<Rightarrow> None)
      else None)"
| "dropped _ = None"

text \<open>
  The resources in being after the calls of a trace, starting from the set \<open>live\<close>;
  \<open>None\<close> if the trace brings into being a resource that is already there, or gives back
  one that is not there.
\<close>

fun live_after :: "resource set \<Rightarrow> event list \<Rightarrow> resource set option" where
  "live_after live [] = Some live"
| "live_after live (e # es) =
     (case gained e of
        Some r \<Rightarrow> if r \<in> live then None else live_after (insert r live) es
      | None \<Rightarrow>
          (case dropped e of
             Some r \<Rightarrow> if r \<in> live then live_after (live - {r}) es else None
           | None \<Rightarrow> live_after live es))"

text \<open>The resources of worker \<open>i\<close>, and those of a whole pool of \<open>n\<close> workers.\<close>

definition worker_res :: "nat \<Rightarrow> resource set" where
  "worker_res i = {Res_mutex i, Res_cond i, Res_thread i}"

definition pool_res :: "nat \<Rightarrow> resource set" where
  "pool_res n = {Res_array, Res_pool_mutex, Res_pool_cond} \<union> (\<Union>i\<in>{0..<n}. worker_res i)"

text \<open>The resources a state accounts for: the pool if there is one, the stream if it
  is recorded as capturing.\<close>

definition held :: "world \<Rightarrow> resource set" where
  "held w =
     (if pool_workers w then pool_res (unat (run_n_buffers w)) else {}) \<union>
     (if run_capturing w then {Res_stream} else {})"

text \<open>
  The state after the three calls that set up worker \<open>i\<close> have succeeded (lines 182
  to 195), the state after \<open>calloc\<close> and the two calls that set up the pool have (lines
  173 to 179), and the state after the three calls that take worker \<open>i\<close> down have
  (lines 216 to 218).
\<close>

definition worker_created :: "nat \<Rightarrow> world \<Rightarrow> world" where
  "worker_created i w =
     (let w3 = step (Ev_worker i Thread_create 0)
                 (step (Ev_worker i Cond_init 0) (step (Ev_worker i Mutex_init 0) w))
      in w3\<lparr>pool_threads := pool_threads w3 @ [clock w3]\<rparr>)"

definition pool_started :: "world \<Rightarrow> world" where
  "pool_started w =
     step (Ev_pool Cond_init 0)
       (step (Ev_pool Mutex_init 0)
          ((step (Ev_calloc (run_n_buffers w) True) (w\<lparr>pool_workers := True\<rparr>))
             \<lparr>pool_threads := []\<rparr>))"

definition worker_joined :: "nat \<Rightarrow> world \<Rightarrow> world" where
  "worker_joined i w =
     step (Ev_worker i Mutex_destroy 0)
       (step (Ev_worker i Cond_destroy 0) (step (Ev_worker i Thread_join 0) w))"

text \<open>A trace none of whose calls brings a resource into being or gives one back.\<close>

definition quiet :: "event list \<Rightarrow> bool" where
  "quiet tr = (\<forall>e\<in>set tr. gained e = None \<and> dropped e = None)"

text \<open>
  From state \<open>w\<close> to state \<open>w'\<close> the trace has only grown, by calls that touch no
  resource, and what the state records of the pool and of the stream is as before.
\<close>

definition same_resources :: "world \<Rightarrow> world \<Rightarrow> bool" where
  "same_resources w w' =
     ((\<exists>tr. trace w' = trace w @ tr \<and> quiet tr) \<and>
      pool_workers w' = pool_workers w \<and> run_capturing w' = run_capturing w \<and>
      run_n_buffers w' = run_n_buffers w)"

text \<open>
  From state \<open>w\<close> to state \<open>w'\<close> the trace has only grown, and the calls it has grown by
  lead from the resources \<open>w\<close> accounts for to those \<open>w'\<close> accounts for.
\<close>

definition accounts :: "world \<Rightarrow> world \<Rightarrow> bool" where
  "accounts w w' = (\<exists>tr. trace w' = trace w @ tr \<and> live_after (held w) tr = Some (held w'))"

text \<open>The stop flag as a latch: once asserted it stays asserted (spec, section 3).\<close>

definition latched :: "env \<Rightarrow> bool" where
  "latched env = (\<forall>t. stop_sig env t \<longrightarrow> stop_sig env (Suc t))"

subsection \<open>A concrete setting\<close>

text \<open>
  Surroundings in which nothing fails: \<open>select\<close> reports the descriptor readable and
  nothing else, every ioctl and pthread call returns 0, every dequeued frame is buffer 0
  with 9000 bytes, \<open>device_open\<close> gives descriptor 3 and two buffers, and the stop flag
  is asserted from moment \<open>T\<close> on.
\<close>

definition calm_env :: "nat \<Rightarrow> env" where
  "calm_env T =
     \<lparr>stop_sig = (\<lambda>t. T \<le> t),
      select_res = (\<lambda>t. \<lparr>sel_retval = 1, sel_eintr = False, sel_read = True,
                           sel_write = False, sel_error = False\<rparr>),
      dqbuf_res = (\<lambda>t. (0, 0, 9000)),
      qbuf_ret = (\<lambda>t. 0),
      stream_ret = (\<lambda>t. 0),
      dqevent_res = (\<lambda>t. (0, V4L2_EVENT_EOS)),
      open_res = (\<lambda>t. (0, 3, 2)),
      close_res = (\<lambda>t. (- 1, 0)),
      calloc_ok = (\<lambda>t. True),
      pthread_ret = (\<lambda>t. 0)\<rparr>"

definition fresh_world :: world where
  "fresh_world =
     \<lparr>clock = 0, trace = [], run_fd = - 1, run_n_buffers = 0,
      run_capturing = False, pool_workers = False, pool_threads = []\<rparr>"

definition session_world :: world where
  "session_world =
     \<lparr>clock = 0, trace = [], run_fd = 3, run_n_buffers = 2,
      run_capturing = True, pool_workers = True, pool_threads = [0, 0]\<rparr>"

text \<open>A session whose pool exists and has no worker: no buffer was negotiated.\<close>

definition empty_pool_world :: world where
  "empty_pool_world =
     \<lparr>clock = 0, trace = [], run_fd = 3, run_n_buffers = 0,
      run_capturing = True, pool_workers = True, pool_threads = []\<rparr>"

definition scenario_dev :: device where
  "scenario_dev = \<lparr>every_frame = 3, min_frame_size = 8000, timeout = 2, error_timeout = 1\<rparr>"

text \<open>The same, with the descriptor reported readable and writable at once.\<close>

definition unplugged_env :: env where
  "unplugged_env =
     (calm_env 10)\<lparr>select_res := (\<lambda>t. \<lparr>sel_retval = 2, sel_eintr = False, sel_read = True,
                                         sel_write = True, sel_error = False\<rparr>)\<rparr>"

text \<open>The same, with the driver handing out buffer index 7 where there are two buffers.\<close>

definition stray_index_env :: env where
  "stray_index_env = (calm_env 10)\<lparr>dqbuf_res := (\<lambda>t. (0, 7, 9000))\<rparr>"

text \<open>The same, with VIDIOC_STREAMON and VIDIOC_STREAMOFF failing every time.\<close>

definition dead_stream_env :: env where
  "dead_stream_env = (calm_env 10)\<lparr>stream_ret := (\<lambda>t. - 1)\<rparr>"

text \<open>The same, with the \<open>pthread_create\<close> of the first worker (moment 9) returning 11.\<close>

definition no_thread_env :: env where
  "no_thread_env = (calm_env 17)\<lparr>pthread_ret := (\<lambda>t. if t = 9 then 11 else 0)\<rparr>"

text \<open>The same, with \<open>calloc\<close> returning \<open>NULL\<close> the first time and stop asserted from
  moment 8 on.\<close>

definition no_memory_env :: env where
  "no_memory_env = (calm_env 8)\<lparr>calloc_ok := (\<lambda>t. 4 < t)\<rparr>"

text \<open>The same, with the stop flag never asserted.\<close>

definition never_stop_env :: env where
  "never_stop_env = (calm_env 0)\<lparr>stop_sig := (\<lambda>t. False)\<rparr>"

subsection \<open>The scenario of the spec's section 8\<close>

text \<open>
  A pass of the mainloop that starts at moment \<open>t\<close> takes a frame without error: the
  stop flag is not asserted, \<open>select\<close> reports the descriptor readable and neither
  writable nor in the error set, VIDIOC_DQBUF succeeds with buffer \<open>i\<close> holding \<open>used\<close>
  bytes, and VIDIOC_QBUF succeeds.
\<close>

definition frame_arrives :: "env \<Rightarrow> nat \<Rightarrow> u32 \<Rightarrow> u32 \<Rightarrow> bool" where
  "frame_arrives env t i used =
     (\<not> stop_sig env t \<and>
      0 < sel_retval (select_res env (t + 1)) \<and> sel_read (select_res env (t + 1)) \<and>
      \<not> sel_write (select_res env (t + 1)) \<and> \<not> sel_error (select_res env (t + 1)) \<and>
      0 \<le> fst (dqbuf_res env (t + 2)) \<and> fst (snd (dqbuf_res env (t + 2))) = i \<and>
      snd (snd (dqbuf_res env (t + 2))) = used \<and>
      0 \<le> qbuf_ret env (t + 3))"

text \<open>
  Surroundings for the scenario: six frames in buffers 0, 1, 0, 1, 0, 1 with sizes
  9000, 9000, 500, 9000, 9000, 9000 (a pass takes four moments), then stop.
\<close>

definition scenario_env :: env where
  "scenario_env =
     (calm_env 24)\<lparr>dqbuf_res :=
        (\<lambda>t. (0, if (t div 4) mod 2 = 0 then 0 else 1, if t div 4 = 2 then 500 else 9000))\<rparr>"

section \<open>Properties\<close>

subsection \<open>Basic facts\<close>

declare spawn_workers.simps [simp del] join_workers.simps [simp del]

lemma exec_bind_simps [simp]:
  "exec_bind (Out_of_fuel w) f = Out_of_fuel w"
  "exec_bind (Aborted w) f = Aborted w"
  "exec_bind (Returned x w) f = f x w"
  by (simp_all add: exec_bind_def)

lemma emit_simps [simp]:
  "clock (emit e w) = clock w"
  "trace (emit e w) = trace w @ [e]"
  "run_fd (emit e w) = run_fd w"
  "run_n_buffers (emit e w) = run_n_buffers w"
  "run_capturing (emit e w) = run_capturing w"
  "pool_workers (emit e w) = pool_workers w"
  "pool_threads (emit e w) = pool_threads w"
  by (simp_all add: emit_def)

lemma tick_simps [simp]:
  "clock (tick w) = Suc (clock w)"
  "trace (tick w) = trace w"
  "run_fd (tick w) = run_fd w"
  "run_n_buffers (tick w) = run_n_buffers w"
  "run_capturing (tick w) = run_capturing w"
  "pool_workers (tick w) = pool_workers w"
  "pool_threads (tick w) = pool_threads w"
  by (simp_all add: tick_def)

lemma step_simps [simp]:
  "clock (step e w) = Suc (clock w)"
  "trace (step e w) = trace w @ [e]"
  "run_fd (step e w) = run_fd w"
  "run_n_buffers (step e w) = run_n_buffers w"
  "run_capturing (step e w) = run_capturing w"
  "pool_workers (step e w) = pool_workers w"
  "pool_threads (step e w) = pool_threads w"
  by (simp_all add: step_def)

lemma control_false_flag: "run_capturing (snd (capture_control env False w)) = False"
  by (simp add: capture_control_def Let_def)

lemma control_clock: "clock w \<le> clock (snd (capture_control env enable w))"
  by (simp add: capture_control_def Let_def)

lemma control_pool:
  "pool_workers (snd (capture_control env enable w)) = pool_workers w"
  "pool_threads (snd (capture_control env enable w)) = pool_threads w"
  "run_n_buffers (snd (capture_control env enable w)) = run_n_buffers w"
  by (simp_all add: capture_control_def Let_def)

lemma grab_simps [simp]:
  "clock (snd (snd (capture_grab_buffer env w))) = Suc (clock w)"
  "run_n_buffers (snd (snd (capture_grab_buffer env w))) = run_n_buffers w"
  by (simp_all add: capture_grab_buffer_def Let_def split: prod.splits)

lemma release_simps [simp]:
  "clock (snd (capture_release_buffer env buf w)) = Suc (clock w)"
  "trace (snd (capture_release_buffer env buf w)) = trace w @ [Ev_qbuf (index buf) (qbuf_ret env (clock w))]"
  "run_n_buffers (snd (capture_release_buffer env buf w)) = run_n_buffers w"
  by (simp_all add: capture_release_buffer_def Let_def)

lemma handle_event_simps [simp]:
  "clock (snd (capture_handle_event env w)) = Suc (clock w)"
  "trace (snd (capture_handle_event env w)) =
     trace w @ [Ev_dqevent (fst (dqevent_res env (clock w))) (snd (dqevent_res env (clock w)))]"
  "run_n_buffers (snd (capture_handle_event env w)) = run_n_buffers w"
  by (simp_all add: capture_handle_event_def Let_def split: prod.splits)

lemma exchange_ok_append:
  "exchange_ok n h xs \<Longrightarrow> exchange_ok n h (xs @ ys) = exchange_ok n None ys"
  by (induction xs arbitrary: h) (auto split: event.splits if_splits)

lemma frame_policy_trace:
  "\<exists>tr. trace (snd (frame_policy dev fc buf w)) = trace w @ tr \<and> (tr = [] \<or> tr = [Ev_compress (index buf)])"
  by (simp add: frame_policy_def Let_def jpeg_compress_buffer_def)

lemma frame_policy_simps [simp]:
  "clock (snd (frame_policy dev fc buf w)) = clock w"
  "run_n_buffers (snd (frame_policy dev fc buf w)) = run_n_buffers w"
  by (simp_all add: frame_policy_def Let_def jpeg_compress_buffer_def)

lemma grab_eq:
  "capture_grab_buffer env w =
     (if fst (dqbuf_res env (clock w)) < 0 \<or> run_n_buffers w \<le> fst (snd (dqbuf_res env (clock w))) then - 1 else 0,
      \<lparr>index = fst (snd (dqbuf_res env (clock w))), bytesused = snd (snd (dqbuf_res env (clock w)))\<rparr>,
      step (Ev_dqbuf (fst (dqbuf_res env (clock w))) (fst (snd (dqbuf_res env (clock w))))
             (snd (snd (dqbuf_res env (clock w))))) w)"
  by (simp add: capture_grab_buffer_def Let_def split_beta)

lemma release_eq:
  "capture_release_buffer env buf w =
     (if qbuf_ret env (clock w) < 0 then - 1 else 0, step (Ev_qbuf (index buf) (qbuf_ret env (clock w))) w)"
  by (simp add: capture_release_buffer_def Let_def)

lemma frame_ready_trace:
  "\<exists>tr. trace (snd (frame_ready env dev fc w)) = trace w @ tr \<and> exchange_ok (run_n_buffers w) None tr"
proof -
  obtain r i used where dq: "dqbuf_res env (clock w) = (r, i, used)"
    by (cases "dqbuf_res env (clock w)") auto
  show ?thesis
  proof (cases "0 \<le> r \<and> i < run_n_buffers w")
    case False
    then show ?thesis
      by (auto simp add: frame_ready_def grab_eq dq not_less)
  next
    case True
    let ?buf = "\<lparr>index = i, bytesused = used\<rparr>"
    let ?w1 = "step (Ev_dqbuf r i used) w"
    obtain tr where tr: "trace (snd (frame_policy dev fc ?buf ?w1)) = trace ?w1 @ tr"
      "tr = [] \<or> tr = [Ev_compress i]"
      using frame_policy_trace [of dev fc ?buf ?w1] by auto
    have "trace (snd (frame_ready env dev fc w)) =
            trace w @ (Ev_dqbuf r i used # tr @ [Ev_qbuf i (qbuf_ret env (clock ?w1))])"
      using True tr(1)
      by (simp add: frame_ready_def grab_eq release_eq dq split_beta not_le)
    moreover have "exchange_ok (run_n_buffers w) None (Ev_dqbuf r i used # tr @ [Ev_qbuf i (qbuf_ret env (clock ?w1))])"
      using True tr(2) by auto
    ultimately show ?thesis by blast
  qed
qed

lemma frame_ready_simps [simp]:
  "run_n_buffers (snd (frame_ready env dev fc w)) = run_n_buffers w"
  "clock w \<le> clock (snd (frame_ready env dev fc w))"
  by (simp_all add: frame_ready_def grab_eq release_eq split_beta)

lemma mainloop_body_n_buffers [simp]:
  "run_n_buffers (snd (mainloop_body env dev fc w)) = run_n_buffers w"
  by (simp add: mainloop_body_def Let_def split_beta split: loop_ctl.splits)

lemma mainloop_body_clock:
  "clock w < clock (snd (mainloop_body env dev fc w))"
  using frame_ready_simps(2) [of "step (Ev_select (timeout dev)) w" env dev fc]
  by (auto simp add: mainloop_body_def Let_def split_beta split: loop_ctl.splits)

lemma mainloop_body_trace:
  "\<exists>tr. trace (snd (mainloop_body env dev fc w)) = trace w @ tr \<and> exchange_ok (run_n_buffers w) None tr"
proof -
  let ?w1 = "step (Ev_select (timeout dev)) w"
  obtain tr where tr: "trace (snd (frame_ready env dev fc ?w1)) = trace ?w1 @ tr"
     "exchange_ok (run_n_buffers w) None tr"
    using frame_ready_trace [of env dev fc ?w1] by auto
  have a: "exchange_ok (run_n_buffers w) None (Ev_select (timeout dev) # tr)"
    using tr(2) by simp
  have b: "exchange_ok (run_n_buffers w) None (Ev_select (timeout dev) # tr @ [Ev_dqevent x y])" for x y
    using tr(2) by (simp add: exchange_ok_append)
  show ?thesis
    using tr(1) a b
    by (auto simp add: mainloop_body_def Let_def split_beta split: loop_ctl.splits)
qed

lemma exec_bind_Returned:
  "exec_bind m f = Returned r w' \<longleftrightarrow> (\<exists>x w1. m = Returned x w1 \<and> f x w1 = Returned r w')"
  by (cases m) auto

lemma assert_pthread_Returned:
  "assert_pthread env ev w = Returned u w' \<longleftrightarrow> (pthread_ret env (clock w) = 0 \<and> w' = step (ev 0) w)"
  by (auto simp add: assert_pthread_def Let_def)

lemma assert_pthread_cases:
  "assert_pthread env ev w =
     (if pthread_ret env (clock w) = 0 then Returned () (step (ev 0) w)
      else Aborted (step (ev (pthread_ret env (clock w))) w))"
  by (simp add: assert_pthread_def Let_def)

lemma mainloop_clock:
  "mainloop n env dev fc w = Returned x w' \<Longrightarrow> clock w < clock w'"
proof (induction n arbitrary: fc w)
  case 0
  then show ?case by simp
next
  case (Suc n)
  show ?case
  proof (cases "stop_sig env (clock w)")
    case True
    with Suc.prems show ?thesis by (auto simp add: read_stop_def)
  next
    case False
    obtain c w2 where b: "mainloop_body env dev fc (tick w) = (c, w2)"
      by (cases "mainloop_body env dev fc (tick w)") auto
    have lt: "clock w < clock w2"
      using mainloop_body_clock [of "tick w" env dev fc] b by simp
    show ?thesis
    proof (cases c)
      case Break
      with Suc.prems False b lt show ?thesis by (auto simp add: read_stop_def)
    next
      case (Continue fc')
      with Suc.prems False b have "mainloop n env dev fc' w2 = Returned x w'"
        by (simp add: read_stop_def)
      from Suc.IH [OF this] lt show ?thesis by simp
    qed
  qed
qed

lemma worker_created_simps [simp]:
  "clock (worker_created i w) = clock w + 3"
  "trace (worker_created i w) =
     trace w @ [Ev_worker i Mutex_init 0, Ev_worker i Cond_init 0, Ev_worker i Thread_create 0]"
  "run_fd (worker_created i w) = run_fd w"
  "run_n_buffers (worker_created i w) = run_n_buffers w"
  "run_capturing (worker_created i w) = run_capturing w"
  "pool_workers (worker_created i w) = pool_workers w"
  "pool_threads (worker_created i w) = pool_threads w @ [clock w + 3]"
  by (simp_all add: worker_created_def Let_def)

lemma worker_joined_simps [simp]:
  "clock (worker_joined i w) = clock w + 3"
  "trace (worker_joined i w) =
     trace w @ [Ev_worker i Thread_join 0, Ev_worker i Cond_destroy 0, Ev_worker i Mutex_destroy 0]"
  "run_fd (worker_joined i w) = run_fd w"
  "run_n_buffers (worker_joined i w) = run_n_buffers w"
  "run_capturing (worker_joined i w) = run_capturing w"
  "pool_workers (worker_joined i w) = pool_workers w"
  "pool_threads (worker_joined i w) = pool_threads w"
  by (simp_all add: worker_joined_def)

lemma spawn_workers_unfold:
  "spawn_workers env n i w =
     (if i < n then
        (if pthread_ret env (clock w) \<noteq> 0
         then Aborted (step (Ev_worker i Mutex_init (pthread_ret env (clock w))) w)
         else if pthread_ret env (Suc (clock w)) \<noteq> 0
         then Aborted (step (Ev_worker i Cond_init (pthread_ret env (Suc (clock w))))
                        (step (Ev_worker i Mutex_init 0) w))
         else if pthread_ret env (Suc (Suc (clock w))) \<noteq> 0
         then Aborted (step (Ev_worker i Thread_create (pthread_ret env (Suc (Suc (clock w)))))
                        (step (Ev_worker i Cond_init 0) (step (Ev_worker i Mutex_init 0) w)))
         else spawn_workers env n (Suc i) (worker_created i w))
      else Returned () w)"
  by (subst spawn_workers.simps) (simp add: assert_pthread_cases worker_created_def Let_def)

lemma spawn_workers_frame:
  "spawn_workers env n i w = Returned u w' \<Longrightarrow>
     clock w \<le> clock w' \<and> pool_workers w' = pool_workers w \<and>
     run_capturing w' = run_capturing w \<and> run_n_buffers w' = run_n_buffers w"
proof (induction "n - i" arbitrary: i w)
  case 0
  then show ?case by (subst (asm) spawn_workers_unfold) simp
next
  case (Suc k)
  from Suc.hyps(2) have lt: "i < n" and k: "k = n - Suc i" by auto
  from Suc.prems lt have r: "spawn_workers env n (Suc i) (worker_created i w) = Returned u w'"
    by (subst (asm) spawn_workers_unfold) (simp split: if_splits)
  from Suc.hyps(1) [OF k r] show ?case by simp
qed

lemma spawn_workers_not_out_of_fuel:
  "spawn_workers env n i w \<noteq> Out_of_fuel w'"
proof (induction "n - i" arbitrary: i w)
  case 0
  then show ?case by (subst spawn_workers_unfold) simp
next
  case (Suc k)
  from Suc.hyps(2) have lt: "i < n" and k: "k = n - Suc i" by auto
  show ?case
    using Suc.hyps(1) [OF k] lt by (subst spawn_workers_unfold) simp
qed

lemma spawn_workers_Returned_iff:
  "(\<exists>w'. spawn_workers env n i w = Returned () w') \<longleftrightarrow>
     (\<forall>t. clock w \<le> t \<and> t < clock w + 3 * (n - i) \<longrightarrow> pthread_ret env t = 0)"
proof (induction "n - i" arbitrary: i w)
  case 0
  then show ?case by (subst spawn_workers_unfold) simp
next
  case (Suc k)
  let ?w3 = "worker_created i w"
  from Suc.hyps(2) have lt: "i < n" and k: "k = n - Suc i" by auto
  have c3: "clock ?w3 = clock w + 3" by simp
  have n3: "3 * (n - i) = 3 + 3 * (n - Suc i)" using lt by simp
  have split: "(\<forall>t. clock w \<le> t \<and> t < clock w + 3 * (n - i) \<longrightarrow> pthread_ret env t = 0) \<longleftrightarrow>
     (pthread_ret env (clock w) = 0 \<and> pthread_ret env (Suc (clock w)) = 0 \<and>
      pthread_ret env (Suc (Suc (clock w))) = 0 \<and>
      (\<forall>t. clock ?w3 \<le> t \<and> t < clock ?w3 + 3 * (n - Suc i) \<longrightarrow> pthread_ret env t = 0))"
    (is "?L \<longleftrightarrow> ?R")
  proof
    assume l: ?L
    have "pthread_ret env (clock w) = 0" "pthread_ret env (Suc (clock w)) = 0"
         "pthread_ret env (Suc (Suc (clock w))) = 0"
      using l n3 by auto
    moreover have "\<forall>t. clock ?w3 \<le> t \<and> t < clock ?w3 + 3 * (n - Suc i) \<longrightarrow> pthread_ret env t = 0"
      using l n3 c3 by auto
    ultimately show ?R by blast
  next
    assume r: ?R
    show ?L
    proof (intro allI impI)
      fix t assume t: "clock w \<le> t \<and> t < clock w + 3 * (n - i)"
      consider "t = clock w" | "t = Suc (clock w)" | "t = Suc (Suc (clock w))" | "clock w + 3 \<le> t"
        using t by linarith
      then show "pthread_ret env t = 0"
      proof cases
        case 4
        with t n3 c3 have "clock ?w3 \<le> t \<and> t < clock ?w3 + 3 * (n - Suc i)" by simp
        with r show ?thesis by blast
      qed (use r in auto)
    qed
  qed
  show ?case
    unfolding split
    using Suc.hyps(1) [OF k, of ?w3] lt
    by (subst spawn_workers_unfold) auto
qed

lemma worker_thread_Returned:
  "capture_worker_thread n env w = Returned u w' \<Longrightarrow>
     clock w < clock w' \<and> stop_sig env (clock w' - 1) \<and> w' = w\<lparr>clock := clock w'\<rparr>"
proof (induction n arbitrary: w)
  case 0
  then show ?case by simp
next
  case (Suc n)
  show ?case
  proof (cases "stop_sig env (clock w)")
    case True
    with Suc.prems show ?thesis by (auto simp add: read_stop_def tick_def)
  next
    case False
    with Suc.prems have "capture_worker_thread n env (tick w) = Returned u w'"
      by (simp add: read_stop_def)
    from Suc.IH [OF this] show ?thesis by (simp add: tick_def)
  qed
qed

lemma worker_thread_enough_fuel:
  "stop_sig env t \<Longrightarrow> clock w \<le> t \<Longrightarrow>
     \<exists>w'. capture_worker_thread (Suc (t - clock w)) env w = Returned () w'"
proof (induction "t - clock w" arbitrary: w)
  case 0
  then show ?case by (simp add: read_stop_def)
next
  case (Suc k)
  have k: "k = t - clock (tick w)" and le: "clock (tick w) \<le> t"
    using Suc.hyps(2) by simp_all
  obtain w' where "capture_worker_thread (Suc (t - clock (tick w))) env (tick w) = Returned () w'"
    using Suc.hyps(1) [OF k Suc.prems(1) le] by blast
  moreover have "Suc (t - clock w) = Suc (Suc (t - clock (tick w)))"
    using Suc.hyps(2) by simp
  ultimately show ?case
    by (cases "stop_sig env (clock w)") (simp_all add: read_stop_def)
qed

lemma worker_thread_blocks:
  "(\<forall>t. clock w \<le> t \<longrightarrow> \<not> stop_sig env t) \<Longrightarrow>
     capture_worker_thread fuel env w = Out_of_fuel (w\<lparr>clock := clock w + fuel\<rparr>)"
proof (induction fuel arbitrary: w)
  case 0
  then show ?case by simp
next
  case (Suc n)
  have "\<forall>t. clock (tick w) \<le> t \<longrightarrow> \<not> stop_sig env t"
    using Suc.prems by simp
  from Suc.IH [OF this] Suc.prems show ?case
    by (simp add: read_stop_def tick_def)
qed

lemma join_thread_Returned:
  assumes "join_thread fuel env s w = Returned u w'"
  shows "w' = w\<lparr>clock := clock w'\<rparr>" and "clock w \<le> clock w'"
    and "\<exists>t. s \<le> t \<and> t < clock w' \<and> stop_sig env t"
proof -
  from assms obtain wt where
    th: "capture_worker_thread fuel env (w\<lparr>clock := s\<rparr>) = Returned () wt" and
    w': "w' = w\<lparr>clock := max (clock w) (clock wt)\<rparr>"
    by (auto simp add: join_thread_def split: exec.splits)
  from w' show "w' = w\<lparr>clock := clock w'\<rparr>" by simp
  from w' show "clock w \<le> clock w'" by simp
  from worker_thread_Returned [OF th] have "s < clock wt" "stop_sig env (clock wt - 1)"
    by simp_all
  moreover have "clock wt \<le> clock w'" using w' by simp
  ultimately have "s \<le> clock wt - 1 \<and> clock wt - 1 < clock w' \<and> stop_sig env (clock wt - 1)"
    by linarith
  then show "\<exists>t. s \<le> t \<and> t < clock w' \<and> stop_sig env t" by blast
qed

lemma join_thread_blocks:
  "(\<forall>t. s \<le> t \<longrightarrow> \<not> stop_sig env t) \<Longrightarrow>
     join_thread fuel env s w = Out_of_fuel (w\<lparr>clock := max (clock w) (s + fuel)\<rparr>)"
  using worker_thread_blocks [of "w\<lparr>clock := s\<rparr>" env fuel]
  by (simp add: join_thread_def)

lemma join_thread_not_Aborted:
  "join_thread fuel env s w \<noteq> Aborted w'"
proof -
  have "capture_worker_thread k env v \<noteq> Aborted v'" for k v v'
    by (induction k arbitrary: v) (simp_all add: read_stop_def)
  then show ?thesis
    by (simp add: join_thread_def split: exec.splits)
qed

lemma join_workers_step:
  assumes "join_workers fuel env n i w = Returned u w'" and "i < n"
  shows "i < length (pool_threads w)"
    and "\<exists>w1. join_thread fuel env (pool_threads w ! i) w = Returned () w1 \<and>
              join_workers fuel env n (Suc i) (worker_joined i w1) = Returned u w'"
proof -
  show l: "i < length (pool_threads w)"
    using assms by (subst (asm) join_workers.simps) (simp split: if_splits)
  from assms l have
    "exec_bind (join_thread fuel env (pool_threads w ! i) w) (\<lambda>_ w1.
     exec_bind (assert_pthread env (Ev_worker i Thread_join) w1) (\<lambda>_ w2.
     exec_bind (assert_pthread env (Ev_worker i Cond_destroy) w2) (\<lambda>_ w3.
     exec_bind (assert_pthread env (Ev_worker i Mutex_destroy) w3) (\<lambda>_ w4.
     join_workers fuel env n (Suc i) w4)))) = Returned u w'"
    by (subst (asm) join_workers.simps) simp
  then obtain w1 w2 w3 w4 where
    j: "join_thread fuel env (pool_threads w ! i) w = Returned () w1" and
    a2: "assert_pthread env (Ev_worker i Thread_join) w1 = Returned () w2" and
    a3: "assert_pthread env (Ev_worker i Cond_destroy) w2 = Returned () w3" and
    a4: "assert_pthread env (Ev_worker i Mutex_destroy) w3 = Returned () w4" and
    r: "join_workers fuel env n (Suc i) w4 = Returned u w'"
    unfolding exec_bind_Returned by auto
  from a2 a3 a4 have "w4 = worker_joined i w1"
    by (simp add: assert_pthread_Returned worker_joined_def)
  with j r show "\<exists>w1. join_thread fuel env (pool_threads w ! i) w = Returned () w1 \<and>
              join_workers fuel env n (Suc i) (worker_joined i w1) = Returned u w'"
    by blast
qed

lemma join_workers_frame:
  "join_workers fuel env n i w = Returned u w' \<Longrightarrow>
     clock w \<le> clock w' \<and> pool_workers w' = pool_workers w \<and>
     run_capturing w' = run_capturing w \<and> run_n_buffers w' = run_n_buffers w \<and>
     pool_threads w' = pool_threads w \<and>
     (i < n \<longrightarrow> i < length (pool_threads w) \<and>
        (\<exists>t. pool_threads w ! i \<le> t \<and> t < clock w' \<and> stop_sig env t))"
proof (induction "n - i" arbitrary: i w)
  case 0
  then show ?case by (subst (asm) join_workers.simps) simp
next
  case (Suc k)
  from Suc.hyps(2) have lt: "i < n" and k: "k = n - Suc i" by auto
  from join_workers_step [OF Suc.prems lt] obtain w1 where
    l: "i < length (pool_threads w)" and
    j: "join_thread fuel env (pool_threads w ! i) w = Returned () w1" and
    rest: "join_workers fuel env n (Suc i) (worker_joined i w1) = Returned u w'"
    by blast
  note a = join_thread_Returned [OF j]
  note b = Suc.hyps(1) [OF k rest]
  from a(3) obtain t where t: "pool_threads w ! i \<le> t" "t < clock w1" "stop_sig env t"
    by blast
  have f: "pool_workers w1 = pool_workers w" "run_capturing w1 = run_capturing w"
       "run_n_buffers w1 = run_n_buffers w" "pool_threads w1 = pool_threads w"
    by (subst a(1), simp)+
  have c: "clock w \<le> clock w'" "t < clock w'"
    using a(2) b t(2) by simp_all
  from b f have "pool_workers w' = pool_workers w \<and> run_capturing w' = run_capturing w \<and>
    run_n_buffers w' = run_n_buffers w \<and> pool_threads w' = pool_threads w"
    by simp
  with c l t show ?case by blast
qed

lemma pool_started_simps [simp]:
  "clock (pool_started w) = clock w + 3"
  "trace (pool_started w) =
     trace w @ [Ev_calloc (run_n_buffers w) True, Ev_pool Mutex_init 0, Ev_pool Cond_init 0]"
  "run_fd (pool_started w) = run_fd w"
  "run_n_buffers (pool_started w) = run_n_buffers w"
  "run_capturing (pool_started w) = run_capturing w"
  "pool_workers (pool_started w) = True"
  "pool_threads (pool_started w) = []"
  by (simp_all add: pool_started_def)

lemma destroy_workers_unfold:
  assumes "capture_destroy_workers fuel env w = Returned u w'" and "pool_workers w"
  shows "\<exists>w1. join_workers fuel env (unat (run_n_buffers w)) 0 w = Returned () w1 \<and>
     w' = (emit Ev_free (step (Ev_pool Mutex_destroy 0) (step (Ev_pool Cond_destroy 0) w1)))
            \<lparr>pool_workers := False, pool_threads := []\<rparr>"
proof -
  from assms have
    "exec_bind (join_workers fuel env (unat (run_n_buffers w)) 0 w) (\<lambda>_ w1.
     exec_bind (assert_pthread env (Ev_pool Cond_destroy) w1) (\<lambda>_ w2.
     exec_bind (assert_pthread env (Ev_pool Mutex_destroy) w2) (\<lambda>_ w3.
     Returned () ((emit Ev_free w3)\<lparr>pool_workers := False, pool_threads := []\<rparr>))))
       = Returned u w'"
    by (simp add: capture_destroy_workers_def)
  then obtain w1 w2 w3 where
    j: "join_workers fuel env (unat (run_n_buffers w)) 0 w = Returned () w1" and
    a2: "assert_pthread env (Ev_pool Cond_destroy) w1 = Returned () w2" and
    a3: "assert_pthread env (Ev_pool Mutex_destroy) w2 = Returned () w3" and
    e: "w' = (emit Ev_free w3)\<lparr>pool_workers := False, pool_threads := []\<rparr>"
    unfolding exec_bind_Returned by auto
  from a2 a3 e have
    "w' = (emit Ev_free (step (Ev_pool Mutex_destroy 0) (step (Ev_pool Cond_destroy 0) w1)))
            \<lparr>pool_workers := False, pool_threads := []\<rparr>"
    by (simp add: assert_pthread_Returned)
  with j show ?thesis by blast
qed

lemma destroy_workers_frame:
  "capture_destroy_workers fuel env w = Returned u w' \<Longrightarrow>
     clock w \<le> clock w' \<and> \<not> pool_workers w' \<and>
     run_capturing w' = run_capturing w \<and> run_n_buffers w' = run_n_buffers w \<and>
     (pool_workers w \<and> 0 < run_n_buffers w \<longrightarrow>
        pool_threads w \<noteq> [] \<and>
        (\<exists>t. pool_threads w ! 0 \<le> t \<and> t < clock w' \<and> stop_sig env t))"
proof (cases "pool_workers w")
  case False
  assume "capture_destroy_workers fuel env w = Returned u w'"
  with False show ?thesis by (auto simp add: capture_destroy_workers_def)
next
  case True
  assume r: "capture_destroy_workers fuel env w = Returned u w'"
  from destroy_workers_unfold [OF r True] obtain w1 where
    j: "join_workers fuel env (unat (run_n_buffers w)) 0 w = Returned () w1" and
    w': "w' = (emit Ev_free (step (Ev_pool Mutex_destroy 0) (step (Ev_pool Cond_destroy 0) w1)))
               \<lparr>pool_workers := False, pool_threads := []\<rparr>"
    by blast
  note a = join_workers_frame [OF j]
  have f: "clock w' = clock w1 + 2" "\<not> pool_workers w'"
    "run_capturing w' = run_capturing w1" "run_n_buffers w' = run_n_buffers w1"
    unfolding w' by simp_all
  have c: "clock w \<le> clock w'" using a f(1) by linarith
  have "pool_threads w \<noteq> [] \<and> (\<exists>t. pool_threads w ! 0 \<le> t \<and> t < clock w' \<and> stop_sig env t)"
    if "0 < run_n_buffers w"
  proof -
    from that have "0 < unat (run_n_buffers w)" by (simp add: word_less_nat_alt)
    with a obtain t where l: "0 < length (pool_threads w)"
      and t: "pool_threads w ! 0 \<le> t" "t < clock w1" "stop_sig env t" by blast
    from t(2) f(1) have "t < clock w'" by linarith
    with t l show ?thesis by auto
  qed
  with a f c show ?thesis by presburger
qed

lemma init_workers_calloc_failed:
  "\<not> calloc_ok env (clock w) \<Longrightarrow>
     capture_init_workers env w =
       Returned (- 1) (step (Ev_calloc (run_n_buffers w) False) (w\<lparr>pool_workers := False\<rparr>))"
  by (simp add: capture_init_workers_def Let_def)

lemma init_workers_unfold:
  "calloc_ok env (clock w) \<Longrightarrow>
   w1 = (step (Ev_calloc (run_n_buffers w) True) (w\<lparr>pool_workers := True\<rparr>))
          \<lparr>pool_threads := []\<rparr> \<Longrightarrow>
   capture_init_workers env w =
     (if pthread_ret env (Suc (clock w)) \<noteq> 0
      then Aborted (step (Ev_pool Mutex_init (pthread_ret env (Suc (clock w)))) w1)
      else if pthread_ret env (Suc (Suc (clock w))) \<noteq> 0
      then Aborted (step (Ev_pool Cond_init (pthread_ret env (Suc (Suc (clock w)))))
                     (step (Ev_pool Mutex_init 0) w1))
      else exec_bind (spawn_workers env (unat (run_n_buffers w)) 0 (pool_started w))
             (\<lambda>_ w4. Returned 0 w4))"
  by (simp add: capture_init_workers_def Let_def assert_pthread_cases pool_started_def)

lemma init_workers_Returned:
  assumes "capture_init_workers env w = Returned r w'" and "calloc_ok env (clock w)"
  shows "r = 0" and "spawn_workers env (unat (run_n_buffers w)) 0 (pool_started w) = Returned () w'"
proof -
  from assms have
    "exec_bind (spawn_workers env (unat (run_n_buffers w)) 0 (pool_started w))
       (\<lambda>_ w4. Returned 0 w4) = Returned r w'"
    unfolding init_workers_unfold [OF assms(2) refl] by (simp split: if_splits)
  then show "r = 0"
    and "spawn_workers env (unat (run_n_buffers w)) 0 (pool_started w) = Returned () w'"
    unfolding exec_bind_Returned by auto
qed

lemma init_workers_frame:
  "capture_init_workers env w = Returned r w' \<Longrightarrow>
     (r = 0 \<or> r = - 1) \<and> clock w < clock w' \<and> run_capturing w' = run_capturing w \<and>
     run_n_buffers w' = run_n_buffers w \<and>
     (r = - 1 \<longleftrightarrow> \<not> calloc_ok env (clock w)) \<and> (pool_workers w' \<longleftrightarrow> r = 0)"
proof (cases "calloc_ok env (clock w)")
  case False
  assume "capture_init_workers env w = Returned r w'"
  with False show ?thesis by (auto simp add: init_workers_calloc_failed)
next
  case True
  assume r: "capture_init_workers env w = Returned r w'"
  note s = init_workers_Returned [OF r True]
  from spawn_workers_frame [OF s(2)] s(1) True show ?thesis by simp
qed

lemma init_workers_not_out_of_fuel:
  "capture_init_workers env w \<noteq> Out_of_fuel w'"
proof (cases "calloc_ok env (clock w)")
  case False
  then show ?thesis by (simp add: init_workers_calloc_failed)
next
  case True
  let ?w3 = "pool_started w"
  have "exec_bind (spawn_workers env (unat (run_n_buffers w)) 0 ?w3) (\<lambda>_ w4. Returned (0::int) w4)
          \<noteq> Out_of_fuel w'"
    using spawn_workers_not_out_of_fuel [of env "unat (run_n_buffers w)" 0 ?w3 w']
    by (cases "spawn_workers env (unat (run_n_buffers w)) 0 ?w3") simp_all
  then show ?thesis
    by (simp add: init_workers_unfold [OF True refl])
qed

lemma device_close_simps [simp]:
  "clock (device_close env w) = Suc (clock w)"
  "trace (device_close env w) = trace w @ [Ev_close]"
  "run_capturing (device_close env w) = run_capturing w"
  "pool_workers (device_close env w) = pool_workers w"
  "pool_threads (device_close env w) = pool_threads w"
  by (simp_all add: device_close_def split_beta)

lemma device_open_simps [simp]:
  "clock (snd (device_open env w)) = Suc (clock w)"
  "run_capturing (snd (device_open env w)) = run_capturing w"
  "pool_workers (snd (device_open env w)) = pool_workers w"
  "pool_threads (snd (device_open env w)) = pool_threads w"
  "trace (snd (device_open env w)) = trace w @ [Ev_open (fst (open_res env (clock w)))]"
  "fst (device_open env w) = fst (open_res env (clock w))"
  by (simp_all add: device_open_def split_beta)

lemma capture_init_unfold:
  "capture_destroy_workers fuel env w = Returned u w1 \<Longrightarrow>
   w4 = snd (device_open env (device_close env (snd (capture_control env False w1)))) \<Longrightarrow>
   w5 = snd (capture_control env True w4) \<Longrightarrow>
   capture_init fuel env dev w =
     (if fst (open_res env (Suc (clock (snd (capture_control env False w1))))) < 0
      then Returned (- 1) (device_close env w4)
      else if fst (capture_control env True w4) < 0 then Returned (- 1) (device_close env w5)
      else exec_bind (capture_init_workers env w5) (\<lambda>r3 w6.
             if r3 < 0 then Returned (- 1) (device_close env w6) else Returned 0 w6))"
  by (simp add: capture_init_def split_beta)

lemma capture_init_after_destroy:
  "capture_init fuel env dev w = Returned r w' \<Longrightarrow>
     \<exists>w1. capture_destroy_workers fuel env w = Returned () w1 \<and>
          (r = 0 \<or> r = - 1) \<and> clock w1 < clock w'"
proof -
  assume r: "capture_init fuel env dev w = Returned r w'"
  then obtain w1 where d: "capture_destroy_workers fuel env w = Returned () w1"
    unfolding capture_init_def exec_bind_Returned by auto
  define w4 where "w4 = snd (device_open env (device_close env (snd (capture_control env False w1))))"
  define w5 where "w5 = snd (capture_control env True w4)"
  note a = destroy_workers_frame [OF d]
  have c4: "clock w1 < clock w4"
    using control_clock [of w1 env False] by (simp add: w4_def)
  have c5: "clock w4 \<le> clock w5"
    unfolding w5_def by (rule control_clock)
  note body = capture_init_unfold [OF d w4_def w5_def, of dev]
  have b: "(r = 0 \<or> r = - 1) \<and> clock w1 < clock w'"
  proof (cases "fst (open_res env (Suc (clock (snd (capture_control env False w1))))) < 0")
    case True
    with body r have "r = - 1" "w' = device_close env w4" by simp_all
    with c4 show ?thesis by simp
  next
    case False
    note o = this
    show ?thesis
    proof (cases "fst (capture_control env True w4) < 0")
      case True
      with body r o have "r = - 1" "w' = device_close env w5" by simp_all
      with c4 c5 show ?thesis by simp
    next
      case False
      with body r o have
        "exec_bind (capture_init_workers env w5) (\<lambda>r3 w6.
             if r3 < 0 then Returned (- 1) (device_close env w6) else Returned 0 w6) = Returned r w'"
        by simp
      then obtain r3 w6 where
        i: "capture_init_workers env w5 = Returned r3 w6" and
        e: "(if r3 < 0 then Returned (- 1) (device_close env w6) else Returned 0 w6) = Returned r w'"
        unfolding exec_bind_Returned by blast
      from init_workers_frame [OF i] have "clock w5 < clock w6" by simp
      moreover from e have "(r = 0 \<or> r = - 1) \<and> clock w6 \<le> clock w'"
        by (cases "r3 < 0") auto
      ultimately show ?thesis using c4 c5 by simp
    qed
  qed
  with d show ?thesis by blast
qed

lemma capture_init_frame:
  "capture_init fuel env dev w = Returned r w' \<Longrightarrow>
     (r = 0 \<or> r = - 1) \<and> clock w < clock w' \<and>
     (pool_workers w \<and> 0 < run_n_buffers w \<longrightarrow>
        pool_threads w \<noteq> [] \<and>
        (\<exists>t. pool_threads w ! 0 \<le> t \<and> t < clock w' \<and> stop_sig env t))"
proof -
  assume r: "capture_init fuel env dev w = Returned r w'"
  from capture_init_after_destroy [OF r] obtain w1 where
    d: "capture_destroy_workers fuel env w = Returned () w1" and
    b: "(r = 0 \<or> r = - 1) \<and> clock w1 < clock w'"
    by blast
  note a = destroy_workers_frame [OF d]
  from a b have lt: "clock w < clock w'" by simp
  have "pool_threads w \<noteq> [] \<and>
        (\<exists>t. pool_threads w ! 0 \<le> t \<and> t < clock w' \<and> stop_sig env t)"
    if "pool_workers w \<and> 0 < run_n_buffers w"
  proof -
    from a that obtain t where l: "pool_threads w \<noteq> []"
      and t: "pool_threads w ! 0 \<le> t" "t < clock w1" "stop_sig env t" by blast
    from t(2) b have "t < clock w'" by linarith
    with t l show ?thesis by blast
  qed
  with b lt show ?thesis by blast
qed

lemma init_loop_from_frame:
  "capture_init_loop_from n env dev rv w = Returned r w' \<Longrightarrow>
     clock w < clock w' \<and>
     (r = 0 \<or> (\<exists>t. clock w \<le> t \<and> t < clock w' \<and> stop_sig env t))"
proof (induction n arbitrary: rv w)
  case 0
  then show ?case by simp
next
  case (Suc n)
  show ?case
  proof (cases "stop_sig env (clock w)")
    case True
    with Suc.prems have "w' = tick w" by (simp add: read_stop_def)
    with True show ?thesis by (auto intro: exI [of _ "clock w"])
  next
    case False
    with Suc.prems have
      "exec_bind (capture_init n env dev (tick w)) (\<lambda>r w2.
         if r < 0
         then capture_init_loop_from n env dev r (step (Ev_sleep (error_timeout dev)) w2)
         else Returned r w2) = Returned r w'"
      by (simp add: read_stop_def)
    then obtain x w2 where
      i: "capture_init n env dev (tick w) = Returned x w2" and
      e: "(if x < 0
           then capture_init_loop_from n env dev x (step (Ev_sleep (error_timeout dev)) w2)
           else Returned x w2) = Returned r w'"
      unfolding exec_bind_Returned by blast
    from capture_init_frame [OF i] have x: "x = 0 \<or> x = - 1" and c: "clock w < clock w2"
      by simp_all
    show ?thesis
    proof (cases "x < 0")
      case False
      with e x c show ?thesis by auto
    next
      case True
      with e have "capture_init_loop_from n env dev x (step (Ev_sleep (error_timeout dev)) w2)
                     = Returned r w'" by simp
      from Suc.IH [OF this] c show ?thesis
        by (auto intro: less_trans)
    qed
  qed
qed

lemma latched_mono:
  assumes "latched env" and "stop_sig env t" and "t \<le> t'"
  shows "stop_sig env t'"
  using assms(3)
proof (induction rule: dec_induct)
  case base
  show ?case by (rule assms(2))
next
  case (step n)
  with assms(1) show ?case by (simp add: latched_def)
qed

lemma sessions_frame:
  "sessions n env dev w = Returned u w' \<Longrightarrow>
     \<exists>t. clock w \<le> t \<and> t < clock w' \<and> stop_sig env t"
proof (induction n arbitrary: w)
  case 0
  then show ?case by simp
next
  case (Suc n)
  from Suc.prems obtain r w1 where
    i: "capture_init_loop_from n env dev (- 1) w = Returned r w1" and
    e: "(if r = 0
         then exec_bind (mainloop n env dev 0 w1) (\<lambda>_ w2. sessions n env dev w2)
         else Returned () w1) = Returned u w'"
    unfolding sessions.simps capture_init_loop_def exec_bind_Returned by blast
  note a = init_loop_from_frame [OF i]
  show ?case
  proof (cases "r = 0")
    case False
    with e have "w' = w1" by simp
    with a False show ?thesis by simp
  next
    case True
    with e have "exec_bind (mainloop n env dev 0 w1) (\<lambda>_ w2. sessions n env dev w2) = Returned u w'"
      by simp
    then obtain x w2 where
      m: "mainloop n env dev 0 w1 = Returned x w2" and
      s: "sessions n env dev w2 = Returned u w'"
      unfolding exec_bind_Returned by blast
    from Suc.IH [OF s] obtain t where t: "clock w2 \<le> t" "t < clock w'" "stop_sig env t"
      by blast
    from mainloop_clock [OF m] a t(1) have "clock w \<le> t" by linarith
    with t show ?thesis by blast
  qed
qed

lemma calm_run:
  "capture_loop 10 (calm_env 17) scenario_dev fresh_world =
     Returned ()
       \<lparr>clock = 29,
        trace =
          [Ev_close, Ev_open 0, Ev_streamon 0, Ev_calloc 2 True,
           Ev_pool Mutex_init 0, Ev_pool Cond_init 0, Ev_worker 0 Mutex_init 0,
           Ev_worker 0 Cond_init 0, Ev_worker 0 Thread_create 0,
           Ev_worker 1 Mutex_init 0, Ev_worker 1 Cond_init 0,
           Ev_worker 1 Thread_create 0, Ev_select 2, Ev_dqbuf 0 0 9000,
           Ev_qbuf 0 0, Ev_worker 0 Thread_join 0, Ev_worker 0 Cond_destroy 0,
           Ev_worker 0 Mutex_destroy 0, Ev_worker 1 Thread_join 0,
           Ev_worker 1 Cond_destroy 0, Ev_worker 1 Mutex_destroy 0,
           Ev_pool Cond_destroy 0, Ev_pool Mutex_destroy 0, Ev_free,
           Ev_streamoff 0, Ev_close],
        run_fd = - 1, run_n_buffers = 0, run_capturing = False, pool_workers = False,
        pool_threads = []\<rparr>"
  by code_simp

lemma live_after_append:
  "live_after S (xs @ ys) = (case live_after S xs of None \<Rightarrow> None | Some S' \<Rightarrow> live_after S' ys)"
  by (induction xs arbitrary: S) (auto split: option.splits)

lemma quiet_simps [simp]:
  "quiet []"
  "quiet (e # es) \<longleftrightarrow> gained e = None \<and> dropped e = None \<and> quiet es"
  "quiet (xs @ ys) \<longleftrightarrow> quiet xs \<and> quiet ys"
  by (auto simp add: quiet_def)

lemma live_after_quiet: "quiet tr \<Longrightarrow> live_after S tr = Some S"
  by (induction tr arbitrary: S) auto

lemma same_refl [simp]: "same_resources w w"
  by (simp add: same_resources_def)

lemma same_trans: "same_resources a b \<Longrightarrow> same_resources b c \<Longrightarrow> same_resources a c"
  by (auto simp add: same_resources_def)

lemma same_step:
  "gained e = None \<Longrightarrow> dropped e = None \<Longrightarrow> same_resources w v \<Longrightarrow> same_resources w (step e v)"
  by (auto simp add: same_resources_def)

lemma same_emit:
  "gained e = None \<Longrightarrow> dropped e = None \<Longrightarrow> same_resources w v \<Longrightarrow> same_resources w (emit e v)"
  by (auto simp add: same_resources_def)

lemma same_tick: "same_resources w v \<Longrightarrow> same_resources w (tick v)"
  by (auto simp add: same_resources_def)

lemma same_frame_ready: "same_resources w v \<Longrightarrow> same_resources w (snd (frame_ready env dev fc v))"
  by (simp add: frame_ready_def grab_eq release_eq frame_policy_def jpeg_compress_buffer_def
        Let_def split_beta same_step same_emit)

lemma same_mainloop_body: "same_resources w v \<Longrightarrow> same_resources w (snd (mainloop_body env dev fc v))"
  by (simp add: mainloop_body_def capture_handle_event_def Let_def split_beta
        same_step same_frame_ready split: loop_ctl.splits)

lemma same_mainloop:
  "mainloop n env dev fc v = Returned x w' \<Longrightarrow> same_resources w v \<Longrightarrow> same_resources w w'"
proof (induction n arbitrary: fc v)
  case 0
  then show ?case by simp
next
  case (Suc n)
  show ?case
  proof (cases "stop_sig env (clock v)")
    case True
    with Suc.prems show ?thesis by (auto simp add: read_stop_def same_tick)
  next
    case False
    obtain c w2 where b: "mainloop_body env dev fc (tick v) = (c, w2)"
      by (cases "mainloop_body env dev fc (tick v)") auto
    have s: "same_resources w w2"
      using same_mainloop_body [OF same_tick [OF Suc.prems(2)], of env dev fc] b by simp
    show ?thesis
    proof (cases c)
      case Break
      with Suc.prems(1) False b s show ?thesis by (auto simp add: read_stop_def)
    next
      case (Continue fc')
      with Suc.prems(1) False b have "mainloop n env dev fc' w2 = Returned x w'"
        by (simp add: read_stop_def)
      from Suc.IH [OF this s] show ?thesis .
    qed
  qed
qed

lemma same_held:
  assumes "same_resources w w'"
  shows "held w' = held w"
proof -
  from assms have "pool_workers w' = pool_workers w" "run_capturing w' = run_capturing w"
    "run_n_buffers w' = run_n_buffers w"
    by (simp_all add: same_resources_def)
  then show ?thesis unfolding held_def by simp
qed

lemma accounts_refl [simp]: "accounts w w"
  by (simp add: accounts_def)

lemma accounts_trans: "accounts a b \<Longrightarrow> accounts b c \<Longrightarrow> accounts a c"
  by (auto simp add: accounts_def live_after_append)

lemma same_accounts:
  assumes "same_resources w w'"
  shows "accounts w w'"
proof -
  from assms obtain tr where tr: "trace w' = trace w @ tr" "quiet tr"
    by (auto simp add: same_resources_def)
  have "live_after (held w) tr = Some (held w')"
    using live_after_quiet [OF tr(2)] same_held [OF assms] by simp
  with tr(1) show ?thesis unfolding accounts_def by blast
qed

lemma stream_not_pool [simp]: "Res_stream \<notin> pool_res n"
  by (simp add: pool_res_def worker_res_def)

lemma control_accounts: "accounts w (snd (capture_control env enable w))"
proof -
  let ?P = "if pool_workers w then pool_res (unat (run_n_buffers w)) else {}"
  have p: "Res_stream \<notin> ?P" by simp
  show ?thesis
  proof (cases "enable = run_capturing w")
    case True
    then show ?thesis by (simp add: capture_control_def)
  next
    case False
    note ne = this
    show ?thesis
    proof (cases enable)
      case True
      with ne have c: "\<not> run_capturing w" by simp
      show ?thesis
        using True c p
        by (auto simp add: accounts_def capture_control_def Let_def held_def)
    next
      case False
      with ne have c: "run_capturing w" by simp
      have "insert Res_stream ?P - {Res_stream} = ?P" using p by blast
      then show ?thesis
        using False c
        by (auto simp add: accounts_def capture_control_def Let_def held_def)
    qed
  qed
qed

lemma close_accounts: "\<not> pool_workers w \<Longrightarrow> accounts w (device_close env w)"
  by (simp add: accounts_def held_def)

lemma open_accounts: "\<not> pool_workers w \<Longrightarrow> accounts w (snd (device_open env w))"
  by (simp add: accounts_def held_def)

lemma worker_res_split:
  assumes "i < n"
  shows "(\<Union>j\<in>{i..<n}. worker_res j) = worker_res i \<union> (\<Union>j\<in>{Suc i..<n}. worker_res j)"
proof -
  from assms have "{i..<n} = insert i {Suc i..<n}" by auto
  then show ?thesis by simp
qed

lemma worker_res_fresh:
  "worker_res i \<inter> (\<Union>j\<in>{Suc i..<n}. worker_res j) = {}"
  by (auto simp add: worker_res_def)

lemma worker_events_gain:
  assumes "S \<inter> worker_res i = {}"
  shows "live_after S
           ([Ev_worker i Mutex_init 0, Ev_worker i Cond_init 0, Ev_worker i Thread_create 0] @ tr)
         = live_after (S \<union> worker_res i) tr"
proof -
  from assms have "Res_mutex i \<notin> S" "Res_cond i \<notin> S" "Res_thread i \<notin> S"
    by (auto simp add: worker_res_def)
  moreover have "insert (Res_thread i) (insert (Res_cond i) (insert (Res_mutex i) S))
                   = S \<union> worker_res i"
    by (auto simp add: worker_res_def)
  ultimately show ?thesis by simp
qed

lemma worker_events_drop:
  assumes "worker_res i \<subseteq> S"
  shows "live_after S
           ([Ev_worker i Thread_join 0, Ev_worker i Cond_destroy 0, Ev_worker i Mutex_destroy 0] @ tr)
         = live_after (S - worker_res i) tr"
proof -
  from assms have "Res_mutex i \<in> S" "Res_cond i \<in> S" "Res_thread i \<in> S"
    by (auto simp add: worker_res_def)
  moreover have "S - {Res_thread i} - {Res_cond i} - {Res_mutex i} = S - worker_res i"
    by (auto simp add: worker_res_def)
  ultimately show ?thesis by simp
qed

lemma spawn_workers_live:
  "spawn_workers env n i w = Returned u w' \<Longrightarrow>
     \<exists>tr. trace w' = trace w @ tr \<and>
       (\<forall>S. S \<inter> (\<Union>j\<in>{i..<n}. worker_res j) = {} \<longrightarrow>
            live_after S tr = Some (S \<union> (\<Union>j\<in>{i..<n}. worker_res j)))"
proof (induction "n - i" arbitrary: i w)
  case 0
  then have "w' = w" by (subst (asm) spawn_workers_unfold) simp
  with 0 show ?case by simp
next
  case (Suc k)
  let ?E = "[Ev_worker i Mutex_init 0, Ev_worker i Cond_init 0, Ev_worker i Thread_create 0]"
  from Suc.hyps(2) have lt: "i < n" and k: "k = n - Suc i" by auto
  from Suc.prems lt have r: "spawn_workers env n (Suc i) (worker_created i w) = Returned u w'"
    by (subst (asm) spawn_workers_unfold) (simp split: if_splits)
  from Suc.hyps(1) [OF k r] obtain tr' where
    t: "trace w' = trace (worker_created i w) @ tr'" and
    l: "\<forall>S. S \<inter> (\<Union>j\<in>{Suc i..<n}. worker_res j) = {} \<longrightarrow>
            live_after S tr' = Some (S \<union> (\<Union>j\<in>{Suc i..<n}. worker_res j))"
    by blast
  have "trace w' = trace w @ (?E @ tr')" using t by simp
  moreover have "live_after S (?E @ tr') = Some (S \<union> (\<Union>j\<in>{i..<n}. worker_res j))"
    if d: "S \<inter> (\<Union>j\<in>{i..<n}. worker_res j) = {}" for S
  proof -
    note sp = worker_res_split [OF lt]
    from d have d1: "S \<inter> worker_res i = {}"
      and d2: "S \<inter> (\<Union>j\<in>{Suc i..<n}. worker_res j) = {}"
      unfolding sp by blast+
    have "(S \<union> worker_res i) \<inter> (\<Union>j\<in>{Suc i..<n}. worker_res j) = {}"
      using d2 worker_res_fresh [of i n] by blast
    with l have "live_after (S \<union> worker_res i) tr'
                   = Some (S \<union> worker_res i \<union> (\<Union>j\<in>{Suc i..<n}. worker_res j))"
      by blast
    then show ?thesis
      unfolding worker_events_gain [OF d1] sp by (simp add: Un_assoc)
  qed
  ultimately show ?case by blast
qed

lemma join_workers_live:
  "join_workers fuel env n i w = Returned u w' \<Longrightarrow>
     \<exists>tr. trace w' = trace w @ tr \<and>
       (\<forall>S. (\<Union>j\<in>{i..<n}. worker_res j) \<subseteq> S \<longrightarrow>
            live_after S tr = Some (S - (\<Union>j\<in>{i..<n}. worker_res j)))"
proof (induction "n - i" arbitrary: i w)
  case 0
  then have "w' = w" by (subst (asm) join_workers.simps) simp
  with 0 show ?case by simp
next
  case (Suc k)
  let ?E = "[Ev_worker i Thread_join 0, Ev_worker i Cond_destroy 0, Ev_worker i Mutex_destroy 0]"
  from Suc.hyps(2) have lt: "i < n" and k: "k = n - Suc i" by auto
  from join_workers_step [OF Suc.prems lt] obtain w1 where
    j: "join_thread fuel env (pool_threads w ! i) w = Returned () w1" and
    rest: "join_workers fuel env n (Suc i) (worker_joined i w1) = Returned u w'"
    by blast
  have t1: "trace w1 = trace w"
    by (subst join_thread_Returned(1) [OF j]) simp
  from Suc.hyps(1) [OF k rest] obtain tr' where
    t: "trace w' = trace (worker_joined i w1) @ tr'" and
    l: "\<forall>S. (\<Union>j\<in>{Suc i..<n}. worker_res j) \<subseteq> S \<longrightarrow>
            live_after S tr' = Some (S - (\<Union>j\<in>{Suc i..<n}. worker_res j))"
    by blast
  have "trace w' = trace w @ (?E @ tr')" using t t1 by simp
  moreover have "live_after S (?E @ tr') = Some (S - (\<Union>j\<in>{i..<n}. worker_res j))"
    if d: "(\<Union>j\<in>{i..<n}. worker_res j) \<subseteq> S" for S
  proof -
    note sp = worker_res_split [OF lt]
    from d have d1: "worker_res i \<subseteq> S"
      and d2: "(\<Union>j\<in>{Suc i..<n}. worker_res j) \<subseteq> S"
      unfolding sp by blast+
    have "(\<Union>j\<in>{Suc i..<n}. worker_res j) \<subseteq> S - worker_res i"
      using d2 worker_res_fresh [of i n] by blast
    with l have "live_after (S - worker_res i) tr'
                   = Some (S - worker_res i - (\<Union>j\<in>{Suc i..<n}. worker_res j))"
      by blast
    moreover have "S - worker_res i - (\<Union>j\<in>{Suc i..<n}. worker_res j)
                     = S - (worker_res i \<union> (\<Union>j\<in>{Suc i..<n}. worker_res j))"
      by blast
    ultimately show ?thesis
      unfolding worker_events_drop [OF d1] sp by simp
  qed
  ultimately show ?case by blast
qed

lemma pool_res_parts:
  "pool_res n = {Res_array, Res_pool_mutex, Res_pool_cond} \<union> (\<Union>j\<in>{0..<n}. worker_res j)"
  "{Res_array, Res_pool_mutex, Res_pool_cond} \<inter> (\<Union>j\<in>{0..<n}. worker_res j) = {}"
  by (auto simp add: pool_res_def worker_res_def)

lemma init_workers_accounts:
  assumes r: "capture_init_workers env w = Returned r w'" and np: "\<not> pool_workers w"
  shows "accounts w w'"
proof (cases "calloc_ok env (clock w)")
  case False
  with r have "w' = step (Ev_calloc (run_n_buffers w) False) (w\<lparr>pool_workers := False\<rparr>)"
    by (simp add: init_workers_calloc_failed)
  with np show ?thesis by (simp add: accounts_def held_def)
next
  case True
  let ?n = "unat (run_n_buffers w)"
  let ?X = "if run_capturing w then {Res_stream} else {}"
  let ?W = "\<Union>j\<in>{0..<?n}. worker_res j"
  let ?E = "[Ev_calloc (run_n_buffers w) True, Ev_pool Mutex_init 0, Ev_pool Cond_init 0]"
  note s = init_workers_Returned [OF r True]
  note f = init_workers_frame [OF r]
  from spawn_workers_live [OF s(2)] obtain tr where
    t: "trace w' = trace (pool_started w) @ tr" and
    l: "\<forall>S. S \<inter> ?W = {} \<longrightarrow> live_after S tr = Some (S \<union> ?W)"
    by blast
  have hw: "held w = ?X" using np by (simp add: held_def)
  have hw': "held w' = pool_res ?n \<union> ?X" using f s(1) by (simp add: held_def)
  have x: "Res_array \<notin> ?X" "Res_pool_mutex \<notin> ?X" "Res_pool_cond \<notin> ?X"
    by simp_all
  have d: "(insert Res_pool_cond (insert Res_pool_mutex (insert Res_array ?X))) \<inter> ?W = {}"
    by (auto simp add: worker_res_def)
  have "live_after ?X (?E @ tr)
          = live_after (insert Res_pool_cond (insert Res_pool_mutex (insert Res_array ?X))) tr"
    using x by simp
  also have "\<dots> = Some (insert Res_pool_cond (insert Res_pool_mutex (insert Res_array ?X)) \<union> ?W)"
    using l d by blast
  also have "insert Res_pool_cond (insert Res_pool_mutex (insert Res_array ?X)) \<union> ?W
               = pool_res ?n \<union> ?X"
    unfolding pool_res_parts(1) by blast
  finally have "live_after (held w) (?E @ tr) = Some (held w')"
    unfolding hw hw' .
  moreover have "trace w' = trace w @ (?E @ tr)" using t by simp
  ultimately show ?thesis unfolding accounts_def by blast
qed

lemma destroy_workers_accounts:
  assumes r: "capture_destroy_workers fuel env w = Returned u w'"
  shows "accounts w w'"
proof (cases "pool_workers w")
  case False
  with r have "w' = w\<lparr>pool_workers := False\<rparr>" by (simp add: capture_destroy_workers_def)
  with False show ?thesis by (simp add: accounts_def held_def)
next
  case True
  let ?n = "unat (run_n_buffers w)"
  let ?X = "if run_capturing w then {Res_stream} else {}"
  let ?W = "\<Union>j\<in>{0..<?n}. worker_res j"
  let ?E = "[Ev_pool Cond_destroy 0, Ev_pool Mutex_destroy 0, Ev_free]"
  from destroy_workers_unfold [OF r True] obtain w1 where
    j: "join_workers fuel env ?n 0 w = Returned () w1" and
    w': "w' = (emit Ev_free (step (Ev_pool Mutex_destroy 0) (step (Ev_pool Cond_destroy 0) w1)))
               \<lparr>pool_workers := False, pool_threads := []\<rparr>"
    by blast
  note f = join_workers_frame [OF j]
  from join_workers_live [OF j] obtain tr where
    t: "trace w1 = trace w @ tr" and
    l: "\<forall>S. ?W \<subseteq> S \<longrightarrow> live_after S tr = Some (S - ?W)"
    by blast
  have hw: "held w = pool_res ?n \<union> ?X" using True by (simp add: held_def)
  have hw': "held w' = ?X" unfolding w' using f by (simp add: held_def)
  have "?W \<subseteq> pool_res ?n \<union> ?X" unfolding pool_res_parts(1) by blast
  with l have 1: "live_after (pool_res ?n \<union> ?X) tr = Some (pool_res ?n \<union> ?X - ?W)" by blast
  have 2: "pool_res ?n \<union> ?X - ?W = insert Res_pool_cond (insert Res_pool_mutex (insert Res_array ?X))"
    unfolding pool_res_parts(1) by (auto simp add: worker_res_def)
  have 3: "live_after (insert Res_pool_cond (insert Res_pool_mutex (insert Res_array ?X))) ?E
             = Some ?X"
    by auto
  have "live_after (held w) (tr @ ?E) = Some (held w')"
    unfolding hw hw' live_after_append 1 2 using 3 by simp
  moreover have "trace w' = trace w @ (tr @ ?E)" unfolding w' using t by simp
  ultimately show ?thesis unfolding accounts_def by blast
qed

lemma capture_init_accounts:
  assumes r: "capture_init fuel env dev w = Returned r w'"
  shows "accounts w w'"
proof -
  from r obtain w1 where d: "capture_destroy_workers fuel env w = Returned () w1"
    unfolding capture_init_def exec_bind_Returned by auto
  define w2 where "w2 = snd (capture_control env False w1)"
  define w4 where "w4 = snd (device_open env (device_close env w2))"
  define w5 where "w5 = snd (capture_control env True w4)"
  have w4': "w4 = snd (device_open env (device_close env (snd (capture_control env False w1))))"
    by (simp add: w4_def w2_def)
  note body = capture_init_unfold [OF d w4' w5_def, of dev]
  from destroy_workers_frame [OF d] have p1: "\<not> pool_workers w1" by simp
  then have p2: "\<not> pool_workers w2" by (simp add: w2_def control_pool)
  then have p3: "\<not> pool_workers (device_close env w2)" by simp
  then have p4: "\<not> pool_workers w4" by (simp add: w4_def)
  then have p5: "\<not> pool_workers w5" by (simp add: w5_def control_pool)
  have a1: "accounts w w1" by (rule destroy_workers_accounts [OF d])
  have a2: "accounts w1 w2" unfolding w2_def by (rule control_accounts)
  have a3: "accounts w2 (device_close env w2)" by (rule close_accounts [OF p2])
  have a4: "accounts (device_close env w2) w4" unfolding w4_def by (rule open_accounts [OF p3])
  have a5: "accounts w4 w5" unfolding w5_def by (rule control_accounts)
  have b4: "accounts w w4"
    by (rule accounts_trans [OF accounts_trans [OF accounts_trans [OF a1 a2] a3] a4])
  have b5: "accounts w w5" by (rule accounts_trans [OF b4 a5])
  show ?thesis
  proof (cases "fst (open_res env (Suc (clock (snd (capture_control env False w1))))) < 0")
    case True
    with body r have "w' = device_close env w4" by simp
    with accounts_trans [OF b4 close_accounts [OF p4]] show ?thesis by simp
  next
    case False
    note o = this
    show ?thesis
    proof (cases "fst (capture_control env True w4) < 0")
      case True
      with body r o have "w' = device_close env w5" by simp
      with accounts_trans [OF b5 close_accounts [OF p5]] show ?thesis by simp
    next
      case False
      with body r o have
        "exec_bind (capture_init_workers env w5) (\<lambda>r3 w6.
             if r3 < 0 then Returned (- 1) (device_close env w6) else Returned 0 w6) = Returned r w'"
        by simp
      then obtain r3 w6 where
        i: "capture_init_workers env w5 = Returned r3 w6" and
        e: "(if r3 < 0 then Returned (- 1) (device_close env w6) else Returned 0 w6) = Returned r w'"
        unfolding exec_bind_Returned by blast
      have b6: "accounts w w6"
        by (rule accounts_trans [OF b5 init_workers_accounts [OF i p5]])
      show ?thesis
      proof (cases "r3 < 0")
        case True
        with init_workers_frame [OF i] have p6: "\<not> pool_workers w6" by auto
        from True e have "w' = device_close env w6" by simp
        with accounts_trans [OF b6 close_accounts [OF p6]] show ?thesis by simp
      next
        case False
        with e have "w' = w6" by simp
        with b6 show ?thesis by simp
      qed
    qed
  qed
qed

lemma init_loop_from_accounts:
  "capture_init_loop_from n env dev rv w = Returned r w' \<Longrightarrow> accounts w w'"
proof (induction n arbitrary: rv w)
  case 0
  then show ?case by simp
next
  case (Suc n)
  have t: "accounts w (tick w)"
    by (rule same_accounts [OF same_tick [OF same_refl]])
  show ?case
  proof (cases "stop_sig env (clock w)")
    case True
    with Suc.prems have "w' = tick w" by (simp add: read_stop_def)
    with t show ?thesis by simp
  next
    case False
    with Suc.prems have
      "exec_bind (capture_init n env dev (tick w)) (\<lambda>r w2.
         if r < 0
         then capture_init_loop_from n env dev r (step (Ev_sleep (error_timeout dev)) w2)
         else Returned r w2) = Returned r w'"
      by (simp add: read_stop_def)
    then obtain x w2 where
      i: "capture_init n env dev (tick w) = Returned x w2" and
      e: "(if x < 0
           then capture_init_loop_from n env dev x (step (Ev_sleep (error_timeout dev)) w2)
           else Returned x w2) = Returned r w'"
      unfolding exec_bind_Returned by blast
    have a2: "accounts w w2"
      by (rule accounts_trans [OF t capture_init_accounts [OF i]])
    show ?thesis
    proof (cases "x < 0")
      case False
      with e have "w' = w2" by simp
      with a2 show ?thesis by simp
    next
      case True
      with e have l: "capture_init_loop_from n env dev x (step (Ev_sleep (error_timeout dev)) w2)
                     = Returned r w'" by simp
      have "accounts w2 (step (Ev_sleep (error_timeout dev)) w2)"
        by (rule same_accounts [OF same_step [OF _ _ same_refl]]) simp_all
      from accounts_trans [OF accounts_trans [OF a2 this] Suc.IH [OF l]] show ?thesis .
    qed
  qed
qed

lemma sessions_accounts:
  "sessions n env dev w = Returned u w' \<Longrightarrow> accounts w w'"
proof (induction n arbitrary: w)
  case 0
  then show ?case by simp
next
  case (Suc n)
  from Suc.prems obtain r w1 where
    i: "capture_init_loop_from n env dev (- 1) w = Returned r w1" and
    e: "(if r = 0
         then exec_bind (mainloop n env dev 0 w1) (\<lambda>_ w2. sessions n env dev w2)
         else Returned () w1) = Returned u w'"
    unfolding sessions.simps capture_init_loop_def exec_bind_Returned by blast
  note a1 = init_loop_from_accounts [OF i]
  show ?case
  proof (cases "r = 0")
    case False
    with e have "w' = w1" by simp
    with a1 show ?thesis by simp
  next
    case True
    with e have "exec_bind (mainloop n env dev 0 w1) (\<lambda>_ w2. sessions n env dev w2) = Returned u w'"
      by simp
    then obtain x w2 where
      m: "mainloop n env dev 0 w1 = Returned x w2" and
      s: "sessions n env dev w2 = Returned u w'"
      unfolding exec_bind_Returned by blast
    have "accounts w1 w2"
      by (rule same_accounts [OF same_mainloop [OF m same_refl]])
    from accounts_trans [OF accounts_trans [OF a1 this] Suc.IH [OF s]] show ?thesis .
  qed
qed

subsection \<open>The supervisor returns only after stop, with everything given back\<close>

text \<open>
  Claim C1. Whenever \<open>capture_loop\<close> returns, at whatever fuel and whatever the
  surroundings answered (however many initialisations failed and however many sessions
  ended at a \<open>break\<close>), the stop flag was asserted at some moment of the run; if the flag
  is a latch it is asserted at the moment of the return. The calls \<open>tr\<close> the run has
  made give back everything they brought into being (\<open>live_after\<close> ends at the empty
  set, starting from the stream if it was recorded as capturing on entry): every
  worker array that was allocated has been freed, every thread that was created has
  been joined, every mutex and condition variable that was initialised has been
  destroyed, and a stream that was started has been stopped by a VIDIOC_STREAMOFF
  (whatever that call returned, as \<open>_capture_control\<close> takes it); nothing is given back
  twice. The last call is \<open>device_close\<close>, and on return \<open>pool->workers\<close> is \<open>NULL\<close> and the
  recorded capturing flag is false. So \<open>capture_loop\<close> never returns while stop has
  not been asserted, and when it returns the worker pool is torn down, the stream
  stopped and the device closed.
\<close>

theorem capture_loop_returns_after_stop:
  assumes "capture_loop fuel env dev w = Returned u w'"
  shows "\<exists>tr. trace w' = trace w @ tr \<and>
           (\<exists>t. clock w \<le> t \<and> t < clock w' \<and> stop_sig env t) \<and>
           (latched env \<longrightarrow> stop_sig env (clock w')) \<and>
           live_after (if run_capturing w then {Res_stream} else {}) tr = Some {} \<and>
           tr \<noteq> [] \<and> last tr = Ev_close \<and>
           \<not> pool_workers w' \<and> \<not> run_capturing w'"
proof -
  let ?w0 = "w\<lparr>pool_workers := False\<rparr>"
  from assms obtain w1 w2 where
    s: "sessions fuel env dev ?w0 = Returned () w1" and
    d: "capture_destroy_workers fuel env w1 = Returned () w2" and
    e: "w' = device_close env (snd (capture_control env False w2))"
    unfolding capture_loop_def exec_bind_Returned by (auto simp add: split_beta)
  let ?w3 = "snd (capture_control env False w2)"
  from sessions_frame [OF s] obtain t where
    t: "clock w \<le> t" "t < clock w1" "stop_sig env t" by auto
  note a = destroy_workers_frame [OF d]
  have "clock w2 < clock w'"
    unfolding e using control_clock [of w2 env False] by simp
  with a t have lt: "t < clock w'" by linarith
  have p: "\<not> pool_workers ?w3" using a by (simp add: control_pool)
  have np: "\<not> pool_workers w'" unfolding e using p by simp
  have nc: "\<not> run_capturing w'" unfolding e by (simp add: control_false_flag)
  have la: "latched env \<longrightarrow> stop_sig env (clock w')"
    using latched_mono [of env t "clock w'"] t(3) lt by simp
  have "accounts ?w0 ?w3"
    by (rule accounts_trans
          [OF accounts_trans [OF sessions_accounts [OF s] destroy_workers_accounts [OF d]]
              control_accounts])
  then obtain tr3 where
    t3: "trace ?w3 = trace w @ tr3" and
    l3: "live_after (held ?w0) tr3 = Some (held ?w3)"
    unfolding accounts_def by auto
  have h0: "held ?w0 = (if run_capturing w then {Res_stream} else {})"
    by (simp add: held_def)
  have h3: "held ?w3 = {}"
    using p by (simp add: held_def control_false_flag)
  have tr: "trace w' = trace w @ (tr3 @ [Ev_close])"
    unfolding e using t3 by simp
  have "live_after (if run_capturing w then {Res_stream} else {}) (tr3 @ [Ev_close]) = Some {}"
    using l3 unfolding h0 h3 by (simp add: live_after_append)
  with tr t lt la np nc show ?thesis
    by (intro exI [of _ "tr3 @ [Ev_close]"]) auto
qed

text \<open>
  A run that returns: stop is asserted from moment 17 on, after one session in which
  one frame was taken; two threads are created and both are joined.
\<close>

theorem capture_loop_returns_after_stop_witness:
  "\<exists>w'. capture_loop 10 (calm_env 17) scenario_dev fresh_world = Returned () w' \<and>
     (\<exists>t. clock fresh_world \<le> t \<and> t < clock w' \<and> stop_sig (calm_env 17) t) \<and>
     latched (calm_env 17) \<and> stop_sig (calm_env 17) (clock w') \<and>
     live_after {} (trace w') = Some {} \<and>
     Ev_worker 1 Thread_create 0 \<in> set (trace w') \<and>
     Ev_worker 1 Thread_join 0 \<in> set (trace w') \<and> Ev_free \<in> set (trace w') \<and>
     last (trace w') = Ev_close \<and> \<not> pool_workers w' \<and> \<not> run_capturing w'"
proof -
  let ?W = "\<lparr>clock = 29,
            trace =
              [Ev_close, Ev_open 0, Ev_streamon 0, Ev_calloc 2 True,
               Ev_pool Mutex_init 0, Ev_pool Cond_init 0, Ev_worker 0 Mutex_init 0,
               Ev_worker 0 Cond_init 0, Ev_worker 0 Thread_create 0,
               Ev_worker 1 Mutex_init 0, Ev_worker 1 Cond_init 0,
               Ev_worker 1 Thread_create 0, Ev_select 2, Ev_dqbuf 0 0 9000,
               Ev_qbuf 0 0, Ev_worker 0 Thread_join 0, Ev_worker 0 Cond_destroy 0,
               Ev_worker 0 Mutex_destroy 0, Ev_worker 1 Thread_join 0,
               Ev_worker 1 Cond_destroy 0, Ev_worker 1 Mutex_destroy 0,
               Ev_pool Cond_destroy 0, Ev_pool Mutex_destroy 0, Ev_free,
               Ev_streamoff 0, Ev_close],
            run_fd = - 1, run_n_buffers = 0, run_capturing = False, pool_workers = False,
            pool_threads = []\<rparr>"
  from capture_loop_returns_after_stop [OF calm_run] obtain tr where
    tr: "trace ?W = trace fresh_world @ tr" and
    rest: "(\<exists>t. clock fresh_world \<le> t \<and> t < clock ?W \<and> stop_sig (calm_env 17) t)"
      "live_after (if run_capturing fresh_world then {Res_stream} else {}) tr = Some {}"
      "last tr = Ev_close" "\<not> pool_workers ?W" "\<not> run_capturing ?W"
      "latched (calm_env 17) \<longrightarrow> stop_sig (calm_env 17) (clock ?W)"
    by blast
  from tr have t: "tr = trace ?W" by (simp add: fresh_world_def)
  have c: "\<not> run_capturing fresh_world" by (simp add: fresh_world_def)
  from rest(2) have l: "live_after {} (trace ?W) = Some {}"
    unfolding t using c by simp
  have m: "Ev_worker 1 Thread_create 0 \<in> set (trace ?W)"
    "Ev_worker 1 Thread_join 0 \<in> set (trace ?W)" "Ev_free \<in> set (trace ?W)"
    by simp_all
  from rest(3) have la: "last (trace ?W) = Ev_close" unfolding t .
  have lt: "latched (calm_env 17)" by (simp add: latched_def calm_env_def)
  with rest(6) have st: "stop_sig (calm_env 17) (clock ?W)" by (rule mp)
  show ?thesis
    using calm_run rest(1) lt st l m la rest(4,5) by blast
qed

subsection \<open>The scenario: skip factor 3, minimum frame size 8000\<close>

lemma advance_simps [simp]:
  "clock (advance w k tr) = clock w + k"
  "trace (advance w k tr) = trace w @ tr"
  "run_n_buffers (advance w k tr) = run_n_buffers w"
  "advance (advance w k tr) k' tr' = advance w (k + k') (tr @ tr')"
  by (simp_all add: advance_def)

lemma pass_skipped:
  assumes "every_frame dev = 3" and "fc = 0 \<or> fc = 1"
    and "frame_arrives env (clock w) i used" and "i < run_n_buffers w"
  shows "mainloop (Suc n) env dev fc w =
           mainloop n env dev (fc + 1)
             (advance w 4 [Ev_select (timeout dev),
                           Ev_dqbuf (fst (dqbuf_res env (clock w + 2))) i used,
                           Ev_qbuf i (qbuf_ret env (clock w + 3))])"
proof -
  have fp: "frame_policy dev fc \<lparr>index = i, bytesused = used\<rparr> x = (fc + 1, x)" for x
    using assms(1,2) by (auto simp add: frame_policy_def)
  have b: "mainloop_body env dev fc (tick w) =
             (Continue (fc + 1),
              advance w 4 [Ev_select (timeout dev),
                           Ev_dqbuf (fst (dqbuf_res env (clock w + 2))) i used,
                           Ev_qbuf i (qbuf_ret env (clock w + 3))])"
    using assms(3,4)
    by (simp add: frame_arrives_def mainloop_body_def frame_ready_def grab_eq release_eq fp
          Let_def not_le advance_def step_def tick_def emit_def eval_nat_numeral)
  from assms(3) have "\<not> stop_sig env (clock w)" by (simp add: frame_arrives_def)
  with b show ?thesis by (simp add: read_stop_def)
qed

lemma pass_too_small:
  assumes "every_frame dev = 3" and "min_frame_size dev = 8000" and "used < 8000"
    and "frame_arrives env (clock w) i used" and "i < run_n_buffers w"
  shows "mainloop (Suc n) env dev 2 w =
           mainloop n env dev 0
             (advance w 4 [Ev_select (timeout dev),
                           Ev_dqbuf (fst (dqbuf_res env (clock w + 2))) i used,
                           Ev_qbuf i (qbuf_ret env (clock w + 3))])"
proof -
  have fp: "frame_policy dev 2 \<lparr>index = i, bytesused = used\<rparr> x = (0, x)" for x
    using assms(1,2,3) by (simp add: frame_policy_def)
  have b: "mainloop_body env dev 2 (tick w) =
             (Continue 0,
              advance w 4 [Ev_select (timeout dev),
                           Ev_dqbuf (fst (dqbuf_res env (clock w + 2))) i used,
                           Ev_qbuf i (qbuf_ret env (clock w + 3))])"
    using assms(4,5)
    by (simp add: frame_arrives_def mainloop_body_def frame_ready_def grab_eq release_eq fp
          Let_def not_le advance_def step_def tick_def emit_def eval_nat_numeral)
  from assms(4) have "\<not> stop_sig env (clock w)" by (simp add: frame_arrives_def)
  with b show ?thesis by (simp add: read_stop_def)
qed

lemma pass_forwarded:
  assumes "every_frame dev = 3" and "min_frame_size dev = 8000" and "\<not> used < 8000"
    and "frame_arrives env (clock w) i used" and "i < run_n_buffers w"
  shows "mainloop (Suc n) env dev 2 w =
           mainloop n env dev 0
             (advance w 4 [Ev_select (timeout dev),
                           Ev_dqbuf (fst (dqbuf_res env (clock w + 2))) i used,
                           Ev_compress i,
                           Ev_qbuf i (qbuf_ret env (clock w + 3))])"
proof -
  have fp: "frame_policy dev 2 \<lparr>index = i, bytesused = used\<rparr> x = (0, jpeg_compress_buffer i x)" for x
    using assms(1,2,3) by (simp add: frame_policy_def)
  have b: "mainloop_body env dev 2 (tick w) =
             (Continue 0,
              advance w 4 [Ev_select (timeout dev),
                           Ev_dqbuf (fst (dqbuf_res env (clock w + 2))) i used,
                           Ev_compress i,
                           Ev_qbuf i (qbuf_ret env (clock w + 3))])"
    using assms(4,5)
    by (simp add: frame_arrives_def mainloop_body_def frame_ready_def grab_eq release_eq fp
          Let_def not_le advance_def step_def tick_def emit_def eval_nat_numeral jpeg_compress_buffer_def)
  from assms(4) have "\<not> stop_sig env (clock w)" by (simp add: frame_arrives_def)
  with b show ?thesis by (simp add: read_stop_def)
qed

lemma scenario_run:
  "mainloop 7 scenario_env scenario_dev 0 session_world =
     Returned Exit_stop
       \<lparr>clock = 25,
        trace = [Ev_select 2, Ev_dqbuf 0 0 9000, Ev_qbuf 0 0,
                 Ev_select 2, Ev_dqbuf 0 1 9000, Ev_qbuf 1 0,
                 Ev_select 2, Ev_dqbuf 0 0 500, Ev_qbuf 0 0,
                 Ev_select 2, Ev_dqbuf 0 1 9000, Ev_qbuf 1 0,
                 Ev_select 2, Ev_dqbuf 0 0 9000, Ev_qbuf 0 0,
                 Ev_select 2, Ev_dqbuf 0 1 9000, Ev_compress 1, Ev_qbuf 1 0],
        run_fd = 3, run_n_buffers = 2, run_capturing = True, pool_workers = True,
        pool_threads = [0, 0]\<rparr>"
  by code_simp

text \<open>
  Claim C2. With skip factor 3 and minimum frame size 8000, let six consecutive passes
  of the mainloop, starting with \<open>frames_count\<close> = 0, each take a frame without error,
  the frames being in buffers \<open>i1\<close> to \<open>i6\<close> (valid indices) with sizes 9000, 9000, 500,
  9000, 9000, 9000. Then after the six passes the loop is back at its head with
  \<open>frames_count\<close> = 0, and the calls made are such that only \<open>i6\<close> was handed to the
  compressor while all six buffers were dequeued and requeued, in order. The policy of
  lines 80 to 101 decides the frames as the claim says: frames 1, 2, 4 and 5 are
  skipped (the counter goes up), frame 3 is in the keep slot (the counter is reset)
  and is dropped for its size, frame 6 is in the keep slot and is forwarded.
\<close>

theorem scenario_only_sixth_forwarded:
  assumes "every_frame dev = 3" and "min_frame_size dev = 8000"
    and "frame_arrives env (clock w) i1 9000"
    and "frame_arrives env (clock w + 4) i2 9000"
    and "frame_arrives env (clock w + 8) i3 500"
    and "frame_arrives env (clock w + 12) i4 9000"
    and "frame_arrives env (clock w + 16) i5 9000"
    and "frame_arrives env (clock w + 20) i6 9000"
    and "i1 < run_n_buffers w" and "i2 < run_n_buffers w" and "i3 < run_n_buffers w"
    and "i4 < run_n_buffers w" and "i5 < run_n_buffers w" and "i6 < run_n_buffers w"
  shows "(\<exists>tr. (\<forall>m. mainloop (6 + m) env dev 0 w = mainloop m env dev 0 (advance w 24 tr)) \<and>
               forwarded tr = [i6] \<and>
               dequeued tr = [i1, i2, i3, i4, i5, i6] \<and>
               released tr = [i1, i2, i3, i4, i5, i6]) \<and>
         frame_policy dev 0 \<lparr>index = i1, bytesused = 9000\<rparr> x = (1, x) \<and>
         frame_policy dev 1 \<lparr>index = i2, bytesused = 9000\<rparr> x = (2, x) \<and>
         frame_policy dev 2 \<lparr>index = i3, bytesused = 500\<rparr> x = (0, x) \<and>
         frame_policy dev 0 \<lparr>index = i4, bytesused = 9000\<rparr> x = (1, x) \<and>
         frame_policy dev 1 \<lparr>index = i5, bytesused = 9000\<rparr> x = (2, x) \<and>
         frame_policy dev 2 \<lparr>index = i6, bytesused = 9000\<rparr> x = (0, jpeg_compress_buffer i6 x)"
proof -
  let ?T = "timeout dev"
  let ?r = "\<lambda>a. fst (dqbuf_res env (clock w + a + 2))"
  let ?q = "\<lambda>a. qbuf_ret env (clock w + a + 3)"
  let ?t1 = "[Ev_select ?T, Ev_dqbuf (fst (dqbuf_res env (clock w + 2))) i1 9000,
              Ev_qbuf i1 (qbuf_ret env (clock w + 3))]"
  let ?t2 = "[Ev_select ?T, Ev_dqbuf (?r 4) i2 9000, Ev_qbuf i2 (?q 4)]"
  let ?t3 = "[Ev_select ?T, Ev_dqbuf (?r 8) i3 500, Ev_qbuf i3 (?q 8)]"
  let ?t4 = "[Ev_select ?T, Ev_dqbuf (?r 12) i4 9000, Ev_qbuf i4 (?q 12)]"
  let ?t5 = "[Ev_select ?T, Ev_dqbuf (?r 16) i5 9000, Ev_qbuf i5 (?q 16)]"
  let ?t6 = "[Ev_select ?T, Ev_dqbuf (?r 20) i6 9000, Ev_compress i6, Ev_qbuf i6 (?q 20)]"
  let ?tr = "?t1 @ ?t2 @ ?t3 @ ?t4 @ ?t5 @ ?t6"
  have run: "mainloop (6 + m) env dev 0 w = mainloop m env dev 0 (advance w 24 ?tr)" for m
  proof -
    have "mainloop (6 + m) env dev 0 w = mainloop (Suc (Suc (Suc (Suc (Suc (Suc m)))))) env dev 0 w"
      by (simp add: eval_nat_numeral)
    also have "\<dots> = mainloop (Suc (Suc (Suc (Suc (Suc m))))) env dev 1 (advance w 4 ?t1)"
      using pass_skipped [OF assms(1) disjI1 [OF refl] assms(3) assms(9)]
      by (simp del: mainloop.simps)
    also have "\<dots> = mainloop (Suc (Suc (Suc (Suc m)))) env dev 2 (advance w 8 (?t1 @ ?t2))"
    proof -
      have f: "frame_arrives env (clock (advance w 4 ?t1)) i2 9000"
        and n: "i2 < run_n_buffers (advance w 4 ?t1)"
        using assms(4,10) by simp_all
      show ?thesis
        using pass_skipped [OF assms(1) disjI2 [OF refl] f n] by (simp del: mainloop.simps)
    qed
    also have "\<dots> = mainloop (Suc (Suc (Suc m))) env dev 0 (advance w 12 (?t1 @ ?t2 @ ?t3))"
    proof -
      have f: "frame_arrives env (clock (advance w 8 (?t1 @ ?t2))) i3 500"
        and n: "i3 < run_n_buffers (advance w 8 (?t1 @ ?t2))"
        using assms(5,11) by simp_all
      have small: "(500::u32) < 8000" by simp
      show ?thesis
        using pass_too_small [OF assms(1,2) small f n] by (simp del: mainloop.simps)
    qed
    also have "\<dots> = mainloop (Suc (Suc m)) env dev 1 (advance w 16 (?t1 @ ?t2 @ ?t3 @ ?t4))"
    proof -
      have f: "frame_arrives env (clock (advance w 12 (?t1 @ ?t2 @ ?t3))) i4 9000"
        and n: "i4 < run_n_buffers (advance w 12 (?t1 @ ?t2 @ ?t3))"
        using assms(6,12) by simp_all
      show ?thesis
        using pass_skipped [OF assms(1) disjI1 [OF refl] f n] by (simp del: mainloop.simps)
    qed
    also have "\<dots> = mainloop (Suc m) env dev 2 (advance w 20 (?t1 @ ?t2 @ ?t3 @ ?t4 @ ?t5))"
    proof -
      have f: "frame_arrives env (clock (advance w 16 (?t1 @ ?t2 @ ?t3 @ ?t4))) i5 9000"
        and n: "i5 < run_n_buffers (advance w 16 (?t1 @ ?t2 @ ?t3 @ ?t4))"
        using assms(7,13) by simp_all
      show ?thesis
        using pass_skipped [OF assms(1) disjI2 [OF refl] f n] by (simp del: mainloop.simps)
    qed
    also have "\<dots> = mainloop m env dev 0 (advance w 24 ?tr)"
    proof -
      have f: "frame_arrives env (clock (advance w 20 (?t1 @ ?t2 @ ?t3 @ ?t4 @ ?t5))) i6 9000"
        and n: "i6 < run_n_buffers (advance w 20 (?t1 @ ?t2 @ ?t3 @ ?t4 @ ?t5))"
        using assms(8,14) by simp_all
      have big: "\<not> (9000::u32) < 8000" by simp
      show ?thesis
        using pass_forwarded [OF assms(1,2) big f n] by (simp del: mainloop.simps)
    qed
    finally show ?thesis .
  qed
  have "forwarded ?tr = [i6]" "dequeued ?tr = [i1, i2, i3, i4, i5, i6]"
       "released ?tr = [i1, i2, i3, i4, i5, i6]"
    by simp_all
  with run have "\<exists>tr. (\<forall>m. mainloop (6 + m) env dev 0 w = mainloop m env dev 0 (advance w 24 tr)) \<and>
               forwarded tr = [i6] \<and>
               dequeued tr = [i1, i2, i3, i4, i5, i6] \<and>
               released tr = [i1, i2, i3, i4, i5, i6]"
    by blast
  moreover have
    "frame_policy dev 0 \<lparr>index = i1, bytesused = 9000\<rparr> x = (1, x)"
    "frame_policy dev 1 \<lparr>index = i2, bytesused = 9000\<rparr> x = (2, x)"
    "frame_policy dev 2 \<lparr>index = i3, bytesused = 500\<rparr> x = (0, x)"
    "frame_policy dev 0 \<lparr>index = i4, bytesused = 9000\<rparr> x = (1, x)"
    "frame_policy dev 1 \<lparr>index = i5, bytesused = 9000\<rparr> x = (2, x)"
    "frame_policy dev 2 \<lparr>index = i6, bytesused = 9000\<rparr> x = (0, jpeg_compress_buffer i6 x)"
    using assms(1,2) by (simp_all add: frame_policy_def)
  ultimately show ?thesis by blast
qed

text \<open>
  The scenario in concrete surroundings, with the buffers 0, 1, 0, 1, 0, 1 and stop
  asserted after the sixth frame: the run as a whole, and the theorem at that input.
\<close>

theorem scenario_only_sixth_forwarded_witness:
  "frame_arrives scenario_env 0 0 9000 \<and> frame_arrives scenario_env 4 1 9000 \<and>
   frame_arrives scenario_env 8 0 500 \<and> frame_arrives scenario_env 12 1 9000 \<and>
   frame_arrives scenario_env 16 0 9000 \<and> frame_arrives scenario_env 20 1 9000 \<and>
   (\<exists>tr. (\<forall>m. mainloop (6 + m) scenario_env scenario_dev 0 session_world =
                mainloop m scenario_env scenario_dev 0 (advance session_world 24 tr)) \<and>
         forwarded tr = [1] \<and> dequeued tr = [0, 1, 0, 1, 0, 1] \<and>
         released tr = [0, 1, 0, 1, 0, 1]) \<and>
   forwarded (trace (final_world (mainloop 7 scenario_env scenario_dev 0 session_world))) = [1] \<and>
   released (trace (final_world (mainloop 7 scenario_env scenario_dev 0 session_world)))
     = [0, 1, 0, 1, 0, 1]"
proof -
  have a: "frame_arrives scenario_env 0 0 9000" "frame_arrives scenario_env 4 1 9000"
    "frame_arrives scenario_env 8 0 500" "frame_arrives scenario_env 12 1 9000"
    "frame_arrives scenario_env 16 0 9000" "frame_arrives scenario_env 20 1 9000"
    by (simp_all add: frame_arrives_def scenario_env_def calm_env_def)
  have d: "every_frame scenario_dev = 3" "min_frame_size scenario_dev = 8000"
    by (simp_all add: scenario_dev_def)
  have c: "clock session_world = 0" "(0::u32) < run_n_buffers session_world"
    "(1::u32) < run_n_buffers session_world"
    by (simp_all add: session_world_def)
  have a': "frame_arrives scenario_env (clock session_world) 0 9000"
    "frame_arrives scenario_env (clock session_world + 4) 1 9000"
    "frame_arrives scenario_env (clock session_world + 8) 0 500"
    "frame_arrives scenario_env (clock session_world + 12) 1 9000"
    "frame_arrives scenario_env (clock session_world + 16) 0 9000"
    "frame_arrives scenario_env (clock session_world + 20) 1 9000"
    using a c(1) by simp_all
  note t = scenario_only_sixth_forwarded
    [of scenario_dev scenario_env session_world 0 1 0 1 0 1,
     OF d a' c(2) c(3) c(2) c(3) c(2) c(3)]
  from t have "\<exists>tr. (\<forall>m. mainloop (6 + m) scenario_env scenario_dev 0 session_world =
                mainloop m scenario_env scenario_dev 0 (advance session_world 24 tr)) \<and>
         forwarded tr = [1] \<and> dequeued tr = [0, 1, 0, 1, 0, 1] \<and>
         released tr = [0, 1, 0, 1, 0, 1]"
    by blast
  moreover have
    "forwarded (trace (final_world (mainloop 7 scenario_env scenario_dev 0 session_world))) = [1]"
    "released (trace (final_world (mainloop 7 scenario_env scenario_dev 0 session_world)))
       = [0, 1, 0, 1, 0, 1]"
    unfolding scenario_run by simp_all
  ultimately show ?thesis using a by blast
qed

subsection \<open>The buffer handshake in the mainloop\<close>

lemma mainloop_sample_run:
  "mainloop 4 (calm_env 8) scenario_dev 2 session_world =
     Returned Exit_stop
       \<lparr>clock = 9,
        trace = [Ev_select 2, Ev_dqbuf 0 0 9000, Ev_compress 0, Ev_qbuf 0 0,
                 Ev_select 2, Ev_dqbuf 0 0 9000, Ev_qbuf 0 0],
        run_fd = 3, run_n_buffers = 2, run_capturing = True, pool_workers = True,
        pool_threads = [0, 0]\<rparr>"
  by code_simp

text \<open>
  Claim C3. In every execution of the mainloop, cut at any fuel and however it ends
  (stop, \<open>break\<close>, or still running), the calls it has made satisfy the handshake
  \<open>exchange_ok\<close>: every acquisition (a \<open>_capture_grab_buffer\<close> that returned 0) is made
  with no buffer held and is followed, before any other acquisition, by one
  VIDIOC_QBUF for the same index; no VIDIOC_QBUF is issued without a buffer held, so
  none is released twice; and at the head of the loop nothing is held. The skip path,
  the too-small path and the forwarding path all pass through the one release of line
  106.
\<close>

theorem mainloop_acquire_release:
  "\<exists>tr. trace (final_world (mainloop fuel env dev frames_count w)) = trace w @ tr \<and>
        exchange_ok (run_n_buffers w) None tr"
proof (induction fuel arbitrary: frames_count w)
  case 0
  then show ?case by simp
next
  case (Suc n)
  show ?case
  proof (cases "stop_sig env (clock w)")
    case True
    then show ?thesis by (simp add: read_stop_def)
  next
    case False
    obtain c w2 where b: "mainloop_body env dev frames_count (tick w) = (c, w2)"
      by (cases "mainloop_body env dev frames_count (tick w)") auto
    obtain tr where tr: "trace w2 = trace w @ tr" "exchange_ok (run_n_buffers w) None tr"
      using mainloop_body_trace [of env dev frames_count "tick w"] b by auto
    have nb: "run_n_buffers w2 = run_n_buffers w"
      using mainloop_body_n_buffers [of env dev frames_count "tick w"] b by simp
    show ?thesis
    proof (cases c)
      case Break
      with False b tr show ?thesis by (simp add: read_stop_def)
    next
      case (Continue fc')
      obtain tr' where tr': "trace (final_world (mainloop n env dev fc' w2)) = trace w2 @ tr'"
        "exchange_ok (run_n_buffers w2) None tr'"
        using Suc.IH [of fc' w2] by auto
      have "exchange_ok (run_n_buffers w) None (tr @ tr')"
        using tr(2) tr'(2) nb by (simp add: exchange_ok_append)
      with Continue False b tr(1) tr'(1) show ?thesis by (simp add: read_stop_def)
    qed
  qed
qed

text \<open>
  Two passes in the concrete setting: a frame that is forwarded and a frame that is
  skipped, each released once.
\<close>

theorem mainloop_acquire_release_witness:
  "trace (final_world (mainloop 4 (calm_env 8) scenario_dev 2 session_world)) =
     [Ev_select 2, Ev_dqbuf 0 0 9000, Ev_compress 0, Ev_qbuf 0 0,
      Ev_select 2, Ev_dqbuf 0 0 9000, Ev_qbuf 0 0] \<and>
   exchange_ok 2 None
     [Ev_select 2, Ev_dqbuf 0 0 9000, Ev_compress 0, Ev_qbuf 0 0,
      Ev_select 2, Ev_dqbuf 0 0 9000, Ev_qbuf 0 0]"
  using mainloop_acquire_release [of 4 "calm_env 8" scenario_dev 2 session_world]
  unfolding mainloop_sample_run
  by (simp add: session_world_def)

subsection \<open>Failures while the worker pool is set up\<close>

lemma init_workers_outcomes:
  assumes ok: "calloc_ok env (clock w)"
  shows "((\<exists>w'. capture_init_workers env w = Returned 0 w') \<longleftrightarrow>
            (\<forall>t. clock w < t \<and> t < clock w + 3 + 3 * unat (run_n_buffers w)
                   \<longrightarrow> pthread_ret env t = 0)) \<and>
         ((\<exists>w'. capture_init_workers env w = Aborted w') \<longleftrightarrow>
            (\<exists>t. clock w < t \<and> t < clock w + 3 + 3 * unat (run_n_buffers w) \<and>
                  pthread_ret env t \<noteq> 0))"
proof -
  let ?n = "unat (run_n_buffers w)"
  let ?w3 = "pool_started w"
  let ?all = "\<forall>t. clock w < t \<and> t < clock w + 3 + 3 * ?n \<longrightarrow> pthread_ret env t = 0"
  let ?sp = "\<forall>t. clock ?w3 \<le> t \<and> t < clock ?w3 + 3 * (?n - 0) \<longrightarrow> pthread_ret env t = 0"
  note u = init_workers_unfold [OF ok refl]
  have c3: "clock ?w3 = clock w + 3" by simp
  have split: "?all \<longleftrightarrow>
      pthread_ret env (Suc (clock w)) = 0 \<and> pthread_ret env (Suc (Suc (clock w))) = 0 \<and> ?sp"
    (is "_ \<longleftrightarrow> ?R")
  proof
    assume l: ?all
    have "pthread_ret env (Suc (clock w)) = 0" "pthread_ret env (Suc (Suc (clock w))) = 0"
      using l by auto
    moreover have ?sp
      unfolding c3 using l by auto
    ultimately show ?R by blast
  next
    assume r: ?R
    show ?all
    proof (intro allI impI)
      fix t assume t: "clock w < t \<and> t < clock w + 3 + 3 * ?n"
      consider "t = Suc (clock w)" | "t = Suc (Suc (clock w))" | "clock w + 3 \<le> t"
        using t by linarith
      then show "pthread_ret env t = 0"
      proof cases
        case 3
        with t have "clock ?w3 \<le> t \<and> t < clock ?w3 + 3 * (?n - 0)"
          unfolding c3 by simp
        with r show ?thesis by blast
      qed (use r in auto)
    qed
  qed
  have ret: "(\<exists>w'. capture_init_workers env w = Returned 0 w') \<longleftrightarrow> ?all"
  proof -
    have "(\<exists>w'. capture_init_workers env w = Returned 0 w') \<longleftrightarrow>
            pthread_ret env (Suc (clock w)) = 0 \<and> pthread_ret env (Suc (Suc (clock w))) = 0 \<and>
            (\<exists>w'. spawn_workers env ?n 0 ?w3 = Returned () w')"
      unfolding u by (auto simp add: exec_bind_Returned)
    also have "\<dots> \<longleftrightarrow> ?R"
      unfolding spawn_workers_Returned_iff [of env ?n 0 ?w3] by (rule refl)
    finally show ?thesis unfolding split .
  qed
  have "(\<exists>w'. capture_init_workers env w = Aborted w') \<longleftrightarrow>
          \<not> (\<exists>w'. capture_init_workers env w = Returned 0 w')"
  proof (cases "capture_init_workers env w")
    case (Out_of_fuel x)
    with init_workers_not_out_of_fuel [of env w x] show ?thesis by simp
  next
    case (Aborted x)
    then show ?thesis by simp
  next
    case (Returned r x)
    from init_workers_frame [OF Returned] ok have "r = 0" by auto
    with Returned show ?thesis by simp
  qed
  with ret show ?thesis by blast
qed

lemma no_memory_run:
  "capture_loop 6 no_memory_env scenario_dev fresh_world =
     Returned ()
       \<lparr>clock = 33,
        trace = [Ev_close, Ev_open 0, Ev_streamon 0, Ev_calloc 2 False, Ev_close,
                 Ev_sleep 1, Ev_streamoff 0, Ev_close, Ev_open 0, Ev_streamon 0,
                 Ev_calloc 2 True, Ev_pool Mutex_init 0, Ev_pool Cond_init 0,
                 Ev_worker 0 Mutex_init 0, Ev_worker 0 Cond_init 0,
                 Ev_worker 0 Thread_create 0, Ev_worker 1 Mutex_init 0,
                 Ev_worker 1 Cond_init 0, Ev_worker 1 Thread_create 0,
                 Ev_worker 0 Thread_join 0, Ev_worker 0 Cond_destroy 0,
                 Ev_worker 0 Mutex_destroy 0, Ev_worker 1 Thread_join 0,
                 Ev_worker 1 Cond_destroy 0, Ev_worker 1 Mutex_destroy 0,
                 Ev_pool Cond_destroy 0, Ev_pool Mutex_destroy 0, Ev_free,
                 Ev_streamoff 0, Ev_close],
        run_fd = - 1, run_n_buffers = 0, run_capturing = False, pool_workers = False,
        pool_threads = []\<rparr>"
  by code_simp

text \<open>
  Claim C4, as the spec states it, fails: when \<open>pthread_create\<close> for the first worker
  returns 11 (all else succeeding), the \<open>assert\<close> of line 190 ends the process; nothing
  is reported to the supervisor and there is no retry.
\<close>

theorem thread_failure_aborts:
  "capture_loop 5 no_thread_env scenario_dev fresh_world =
     Aborted
       \<lparr>clock = 10,
        trace = [Ev_close, Ev_open 0, Ev_streamon 0, Ev_calloc 2 True,
                 Ev_pool Mutex_init 0, Ev_pool Cond_init 0, Ev_worker 0 Mutex_init 0,
                 Ev_worker 0 Cond_init 0, Ev_worker 0 Thread_create 11],
        run_fd = 3, run_n_buffers = 2, run_capturing = True, pool_workers = True,
        pool_threads = []\<rparr>"
  by code_simp

text \<open>
  Claim C4, amended. When \<open>calloc\<close> of the worker array fails,
  \<open>_capture_init_workers\<close> returns \<open>- 1\<close> with \<open>pool->workers\<close> \<open>NULL\<close>; \<open>_capture_init\<close>
  then closes the device and returns \<open>- 1\<close>, and \<open>_capture_init_loop\<close> sleeps for the
  error delay and tries again unless stop is asserted: the process is not aborted by
  that failure. When \<open>calloc\<close> succeeds, \<open>_capture_init_workers\<close> returns 0 exactly when
  every pthread call it makes (the two for the pool, three per worker) returns 0, and
  otherwise the failing \<open>assert\<close> aborts the process, which \<open>_capture_init_loop\<close> cannot
  turn into a retry.
\<close>

theorem init_workers_failure_modes:
  "(\<not> calloc_ok env (clock w) \<longrightarrow>
      capture_init_workers env w =
        Returned (- 1) (step (Ev_calloc (run_n_buffers w) False) (w\<lparr>pool_workers := False\<rparr>))) \<and>
   (calloc_ok env (clock w) \<longrightarrow>
      ((\<exists>w'. capture_init_workers env w = Returned 0 w') \<longleftrightarrow>
         (\<forall>t. clock w < t \<and> t < clock w + 3 + 3 * unat (run_n_buffers w)
                \<longrightarrow> pthread_ret env t = 0)) \<and>
      ((\<exists>w'. capture_init_workers env w = Aborted w') \<longleftrightarrow>
         (\<exists>t. clock w < t \<and> t < clock w + 3 + 3 * unat (run_n_buffers w) \<and>
               pthread_ret env t \<noteq> 0))) \<and>
   (capture_destroy_workers fuel env v = Returned () va \<and>
    vb = snd (device_open env (device_close env (snd (capture_control env False va)))) \<and>
    vc = snd (capture_control env True vb) \<and>
    0 \<le> fst (device_open env (device_close env (snd (capture_control env False va)))) \<and>
    0 \<le> fst (capture_control env True vb) \<and>
    \<not> calloc_ok env (clock vc) \<longrightarrow>
      capture_init fuel env dev v =
        Returned (- 1)
          (device_close env
             (step (Ev_calloc (run_n_buffers vc) False) (vc\<lparr>pool_workers := False\<rparr>)))) \<and>
   (\<not> stop_sig env (clock x) \<and> capture_init n env dev (tick x) = Returned r xa \<and> r < 0 \<longrightarrow>
      capture_init_loop_from (Suc n) env dev rv x =
        capture_init_loop_from n env dev r (step (Ev_sleep (error_timeout dev)) xa)) \<and>
   (\<not> stop_sig env (clock x) \<and> capture_init n env dev (tick x) = Aborted xa \<longrightarrow>
      capture_init_loop_from (Suc n) env dev rv x = Aborted xa)"
proof -
  have 1: "\<not> calloc_ok env (clock w) \<longrightarrow>
      capture_init_workers env w =
        Returned (- 1) (step (Ev_calloc (run_n_buffers w) False) (w\<lparr>pool_workers := False\<rparr>))"
    by (simp add: init_workers_calloc_failed)
  have 3: "capture_init fuel env dev v =
        Returned (- 1)
          (device_close env
             (step (Ev_calloc (run_n_buffers vc) False) (vc\<lparr>pool_workers := False\<rparr>)))"
    if h: "capture_destroy_workers fuel env v = Returned () va \<and>
    vb = snd (device_open env (device_close env (snd (capture_control env False va)))) \<and>
    vc = snd (capture_control env True vb) \<and>
    0 \<le> fst (device_open env (device_close env (snd (capture_control env False va)))) \<and>
    0 \<le> fst (capture_control env True vb) \<and>
    \<not> calloc_ok env (clock vc)"
  proof -
    from h have d: "capture_destroy_workers fuel env v = Returned () va"
      and vb: "vb = snd (device_open env (device_close env (snd (capture_control env False va))))"
      and vc: "vc = snd (capture_control env True vb)"
      and o': "0 \<le> fst (device_open env (device_close env (snd (capture_control env False va))))"
      and c': "0 \<le> fst (capture_control env True vb)"
      and m: "\<not> calloc_ok env (clock vc)"
      by blast+
    from o' have o: "\<not> fst (open_res env (Suc (clock (snd (capture_control env False va))))) < 0"
      by simp
    from c' have c: "\<not> fst (capture_control env True vb) < 0"
      by simp
    show ?thesis
      unfolding capture_init_unfold [OF d vb vc, of dev]
      using o c by (simp add: init_workers_calloc_failed [OF m])
  qed
  have 4: "\<not> stop_sig env (clock x) \<and> capture_init n env dev (tick x) = Returned r xa \<and> r < 0 \<longrightarrow>
      capture_init_loop_from (Suc n) env dev rv x =
        capture_init_loop_from n env dev r (step (Ev_sleep (error_timeout dev)) xa)"
    by (simp add: read_stop_def)
  have 5: "\<not> stop_sig env (clock x) \<and> capture_init n env dev (tick x) = Aborted xa \<longrightarrow>
      capture_init_loop_from (Suc n) env dev rv x = Aborted xa"
    by (simp add: read_stop_def)
  from 1 init_workers_outcomes [of env w] 3 4 5 show ?thesis by blast
qed

text \<open>
  A run in which the first \<open>calloc\<close> fails: the supervisor sleeps, initialises again and
  returns after stop. And the failing \<open>calloc\<close> by itself.
\<close>

theorem init_workers_failure_modes_witness:
  "\<not> calloc_ok no_memory_env (clock (session_world\<lparr>clock := 4\<rparr>)) \<and>
   capture_init_workers no_memory_env (session_world\<lparr>clock := 4\<rparr>) =
     Returned (- 1)
       (session_world\<lparr>clock := 5, trace := [Ev_calloc 2 False], pool_workers := False\<rparr>) \<and>
   (\<exists>w'. capture_init_workers no_thread_env (session_world\<lparr>clock := 4\<rparr>) = Aborted w') \<and>
   (\<exists>w'. capture_loop 6 no_memory_env scenario_dev fresh_world = Returned () w' \<and>
         Ev_calloc 2 False \<in> set (trace w') \<and> Ev_sleep 1 \<in> set (trace w'))"
proof -
  note a = init_workers_failure_modes
    [where env = no_memory_env and w = "session_world\<lparr>clock := 4\<rparr>"]
  note b = init_workers_failure_modes
    [where env = no_thread_env and w = "session_world\<lparr>clock := 4\<rparr>"]
  have m: "\<not> calloc_ok no_memory_env (clock (session_world\<lparr>clock := 4\<rparr>))"
    by (simp add: no_memory_env_def)
  from a m have "capture_init_workers no_memory_env (session_world\<lparr>clock := 4\<rparr>) =
     Returned (- 1) (step (Ev_calloc (run_n_buffers (session_world\<lparr>clock := 4\<rparr>)) False)
                      (session_world\<lparr>clock := 4, pool_workers := False\<rparr>))"
    by simp
  then have 1: "capture_init_workers no_memory_env (session_world\<lparr>clock := 4\<rparr>) =
     Returned (- 1)
       (session_world\<lparr>clock := 5, trace := [Ev_calloc 2 False], pool_workers := False\<rparr>)"
    by (simp add: session_world_def step_def tick_def emit_def)
  have k: "calloc_ok no_thread_env (clock (session_world\<lparr>clock := 4\<rparr>))"
    by (simp add: no_thread_env_def calm_env_def)
  have "\<exists>t. clock (session_world\<lparr>clock := 4\<rparr>) < t \<and>
            t < clock (session_world\<lparr>clock := 4\<rparr>) + 3 +
                3 * unat (run_n_buffers (session_world\<lparr>clock := 4\<rparr>)) \<and>
            pthread_ret no_thread_env t \<noteq> 0"
    by (rule exI [of _ 9]) (simp add: no_thread_env_def session_world_def)
  with b k have 2: "\<exists>w'. capture_init_workers no_thread_env (session_world\<lparr>clock := 4\<rparr>) = Aborted w'"
    by blast
  have 3: "\<exists>w'. capture_loop 6 no_memory_env scenario_dev fresh_world = Returned () w' \<and>
         Ev_calloc 2 False \<in> set (trace w') \<and> Ev_sleep 1 \<in> set (trace w')"
    unfolding no_memory_run by simp
  from m 1 2 3 show ?thesis by blast
qed

subsection \<open>Write readiness ends the session\<close>

lemma body_write_ready:
  "0 < sel_retval (select_res env (clock w)) \<Longrightarrow> sel_write (select_res env (clock w)) \<Longrightarrow>
     fst (mainloop_body env dev fc w) = Break"
  by (simp add: mainloop_body_def Let_def split_beta split: loop_ctl.splits)

text \<open>
  Claim C5. In a pass of the mainloop in which \<open>select\<close> returns a positive value with
  the descriptor in the write set, the body ends at a \<open>break\<close>, whether or not the
  descriptor is also in the read set (the frame, if any, is handled first); so a pass
  that starts with stop unasserted leaves the mainloop through \<open>break\<close> within that
  pass.
\<close>

theorem write_ready_ends_session:
  "(0 < sel_retval (select_res env (clock w)) \<and> sel_write (select_res env (clock w))
      \<longrightarrow> fst (mainloop_body env dev frames_count w) = Break) \<and>
   (\<not> stop_sig env (clock w) \<and> 0 < sel_retval (select_res env (Suc (clock w))) \<and>
    sel_write (select_res env (Suc (clock w)))
      \<longrightarrow> (\<exists>w'. mainloop (Suc n) env dev frames_count w = Returned Exit_break w'))"
proof (intro conjI impI)
  assume "0 < sel_retval (select_res env (clock w)) \<and> sel_write (select_res env (clock w))"
  then show "fst (mainloop_body env dev frames_count w) = Break"
    by (simp add: body_write_ready)
next
  assume a: "\<not> stop_sig env (clock w) \<and> 0 < sel_retval (select_res env (Suc (clock w))) \<and>
    sel_write (select_res env (Suc (clock w)))"
  then have "fst (mainloop_body env dev frames_count (tick w)) = Break"
    by (simp add: body_write_ready)
  then obtain w2 where "mainloop_body env dev frames_count (tick w) = (Break, w2)"
    by (cases "mainloop_body env dev frames_count (tick w)") auto
  with a show "\<exists>w'. mainloop (Suc n) env dev frames_count w = Returned Exit_break w'"
    by (simp add: read_stop_def)
qed

text \<open>The descriptor readable and writable at once: the frame is taken, then the break.\<close>

theorem write_ready_ends_session_witness:
  "sel_read (select_res unplugged_env 0) \<and> sel_write (select_res unplugged_env 0) \<and>
   fst (mainloop_body unplugged_env scenario_dev 0 session_world) = Break \<and>
   (\<exists>w'. mainloop 1 unplugged_env scenario_dev 0 session_world = Returned Exit_break w')"
  using write_ready_ends_session
    [where env = unplugged_env and w = session_world and dev = scenario_dev
       and frames_count = 0 and n = 0]
  by (simp add: unplugged_env_def calm_env_def session_world_def)

subsection \<open>The stream controller\<close>

lemma starts_append [simp]: "starts (xs @ ys) = starts xs + starts ys"
  by (induction xs) (auto split: event.splits)

text \<open>
  Claim C6, as the spec states it, fails: two consecutive \<open>_capture_control(dev, true)\<close>
  calls perform two VIDIOC_STREAMON calls when the first one fails, because a failed start
  leaves the capturing flag false.
\<close>

theorem control_twice_two_starts:
  "starts (trace (snd (capture_control dead_stream_env True
                         (snd (capture_control dead_stream_env True fresh_world))))) = 2 \<and>
   fst (capture_control dead_stream_env True fresh_world) = - 1"
  by (simp add: capture_control_def Let_def dead_stream_env_def calm_env_def fresh_world_def)

text \<open>
  Claim C6, amended. When the requested state equals the recorded capturing flag,
  \<open>_capture_control\<close> makes no call, changes nothing and returns 0. Two consecutive
  \<open>_capture_control(dev, true)\<close> calls, the first of which returns 0, perform at most one
  VIDIOC_STREAMON: the second call makes no call and changes nothing. (A first call that
  fails leaves the flag unchanged, and the second call then issues the ioctl again.)
\<close>

theorem control_idempotent:
  "(enable = run_capturing w \<longrightarrow> capture_control env enable w = (0, w)) \<and>
   (fst (capture_control env True w) = 0 \<longrightarrow>
      capture_control env True (snd (capture_control env True w))
        = (0, snd (capture_control env True w)) \<and>
      starts (trace (snd (capture_control env True (snd (capture_control env True w)))))
        = starts (trace w) + (if run_capturing w then 0 else 1))"
  by (simp add: capture_control_def Let_def)

text \<open>Starting twice where the ioctl succeeds: one VIDIOC_STREAMON.\<close>

theorem control_idempotent_witness:
  "fst (capture_control (calm_env 10) True fresh_world) = 0 \<and>
   capture_control (calm_env 10) True (snd (capture_control (calm_env 10) True fresh_world))
     = (0, snd (capture_control (calm_env 10) True fresh_world)) \<and>
   starts (trace (snd (capture_control (calm_env 10) True
                         (snd (capture_control (calm_env 10) True fresh_world))))) = 1 \<and>
   capture_control (calm_env 10) True session_world = (0, session_world)"
  using control_idempotent [of True session_world "calm_env 10"]
        control_idempotent [of True fresh_world "calm_env 10"]
  by (simp add: capture_control_def Let_def calm_env_def fresh_world_def session_world_def)

subsection \<open>The event monitor\<close>

text \<open>
  Claim C7. Whatever the surroundings answer to VIDIOC_DQEVENT, \<open>_capture_handle_event\<close>
  returns \<open>- 1\<close> (reinitialisation required) when the event was dequeued (return value 0)
  and is a source change; it returns 0 (ignore) when the dequeued event is an end of
  stream, and also when the event could not be dequeued or has any other type; and
  these two values are its only results.
\<close>

theorem handle_event_verdicts:
  "(fst (dqevent_res env (clock w)) = 0 \<and>
    snd (dqevent_res env (clock w)) = V4L2_EVENT_SOURCE_CHANGE
      \<longrightarrow> fst (capture_handle_event env w) = - 1) \<and>
   (fst (dqevent_res env (clock w)) = 0 \<and>
    snd (dqevent_res env (clock w)) = V4L2_EVENT_EOS
      \<longrightarrow> fst (capture_handle_event env w) = 0) \<and>
   (fst (dqevent_res env (clock w)) \<noteq> 0 \<or>
    snd (dqevent_res env (clock w)) \<noteq> V4L2_EVENT_SOURCE_CHANGE
      \<longrightarrow> fst (capture_handle_event env w) = 0) \<and>
   (fst (capture_handle_event env w) = - 1 \<or> fst (capture_handle_event env w) = 0)"
  by (simp add: capture_handle_event_def Let_def split_beta
        V4L2_EVENT_EOS_def V4L2_EVENT_SOURCE_CHANGE_def)

text \<open>
  The four cases at concrete answers: a source change, an end of stream, a failed
  dequeue, and an event of type 7.
\<close>

theorem handle_event_verdicts_witness:
  "fst (capture_handle_event
          ((calm_env 0)\<lparr>dqevent_res := (\<lambda>t. (0, V4L2_EVENT_SOURCE_CHANGE))\<rparr>) fresh_world) = - 1 \<and>
   fst (capture_handle_event (calm_env 0) fresh_world) = 0 \<and>
   fst (capture_handle_event ((calm_env 0)\<lparr>dqevent_res := (\<lambda>t. (- 1, 0))\<rparr>) fresh_world) = 0 \<and>
   fst (capture_handle_event ((calm_env 0)\<lparr>dqevent_res := (\<lambda>t. (0, 7))\<rparr>) fresh_world) = 0"
  using
    handle_event_verdicts
      [of "(calm_env 0)\<lparr>dqevent_res := (\<lambda>t. (0, V4L2_EVENT_SOURCE_CHANGE))\<rparr>" fresh_world]
    handle_event_verdicts [of "calm_env 0" fresh_world]
    handle_event_verdicts [of "(calm_env 0)\<lparr>dqevent_res := (\<lambda>t. (- 1, 0))\<rparr>" fresh_world]
    handle_event_verdicts [of "(calm_env 0)\<lparr>dqevent_res := (\<lambda>t. (0, 7))\<rparr>" fresh_world]
  by (simp add: calm_env_def fresh_world_def V4L2_EVENT_EOS_def V4L2_EVENT_SOURCE_CHANGE_def)

subsection \<open>Workers end only with stop\<close>

lemma spawn_workers_threads:
  "spawn_workers env n i w = Returned u w' \<Longrightarrow>
     \<exists>ts. pool_threads w' = pool_threads w @ ts \<and> length ts = n - i \<and>
          (\<forall>s\<in>set ts. clock w < s \<and> s \<le> clock w')"
proof (induction "n - i" arbitrary: i w)
  case 0
  then show ?case by (subst (asm) spawn_workers_unfold) simp
next
  case (Suc k)
  from Suc.hyps(2) have lt: "i < n" and k: "k = n - Suc i" by auto
  from Suc.prems lt have r: "spawn_workers env n (Suc i) (worker_created i w) = Returned u w'"
    by (subst (asm) spawn_workers_unfold) (simp split: if_splits)
  from Suc.hyps(1) [OF k r] obtain ts where
    ts: "pool_threads w' = (pool_threads w @ [clock w + 3]) @ ts" "length ts = n - Suc i"
      "\<forall>s\<in>set ts. clock w + 3 < s \<and> s \<le> clock w'"
    by auto
  from spawn_workers_frame [OF r] have c: "clock w + 3 \<le> clock w'" by simp
  have "pool_threads w' = pool_threads w @ ((clock w + 3) # ts)"
    using ts(1) by simp
  moreover have "length ((clock w + 3) # ts) = n - i"
    using ts(2) lt by simp
  moreover have "\<forall>s\<in>set ((clock w + 3) # ts). clock w < s \<and> s \<le> clock w'"
    using ts(3) c by auto
  ultimately show ?case by blast
qed

lemma init_workers_threads:
  assumes "capture_init_workers env w = Returned 0 v"
  shows "length (pool_threads v) = unat (run_n_buffers v) \<and>
         (\<forall>s\<in>set (pool_threads v). clock w < s \<and> s \<le> clock v)"
proof -
  from init_workers_frame [OF assms] have ok: "calloc_ok env (clock w)"
    and n: "run_n_buffers v = run_n_buffers w" by auto
  from init_workers_Returned(2) [OF assms ok] have
    s: "spawn_workers env (unat (run_n_buffers w)) 0 (pool_started w) = Returned () v" .
  from spawn_workers_threads [OF s] obtain ts where
    ts: "pool_threads v = ts" "length ts = unat (run_n_buffers w)"
      "\<forall>s\<in>set ts. clock w + 3 < s \<and> s \<le> clock v"
    by auto
  from ts n show ?thesis by auto
qed

lemma join_workers_all:
  "join_workers fuel env n i w = Returned u w' \<Longrightarrow> i \<le> j \<Longrightarrow> j < n \<Longrightarrow>
     j < length (pool_threads w) \<and>
     (\<exists>t. pool_threads w ! j \<le> t \<and> t < clock w' \<and> stop_sig env t)"
proof (induction "n - i" arbitrary: i w)
  case 0
  then show ?case by simp
next
  case (Suc k)
  from Suc.hyps(2) have lt: "i < n" and k: "k = n - Suc i" by auto
  show ?case
  proof (cases "j = i")
    case True
    with join_workers_frame [OF Suc.prems(1)] lt show ?thesis by blast
  next
    case False
    with Suc.prems(2) have le: "Suc i \<le> j" by simp
    from join_workers_step [OF Suc.prems(1) lt] obtain w1 where
      j: "join_thread fuel env (pool_threads w ! i) w = Returned () w1" and
      rest: "join_workers fuel env n (Suc i) (worker_joined i w1) = Returned u w'"
      by blast
    have "pool_threads w1 = pool_threads w"
      by (subst join_thread_Returned(1) [OF j]) simp
    with Suc.hyps(1) [OF k rest le Suc.prems(3)] show ?thesis by simp
  qed
qed

lemma destroy_workers_all:
  assumes r: "capture_destroy_workers fuel env w = Returned u w'"
    and p: "pool_workers w" and j: "j < unat (run_n_buffers w)"
  shows "j < length (pool_threads w) \<and>
         (\<exists>t. pool_threads w ! j \<le> t \<and> t < clock w' \<and> stop_sig env t)"
proof -
  from destroy_workers_unfold [OF r p] obtain w1 where
    jw: "join_workers fuel env (unat (run_n_buffers w)) 0 w = Returned () w1" and
    w': "w' = (emit Ev_free (step (Ev_pool Mutex_destroy 0) (step (Ev_pool Cond_destroy 0) w1)))
               \<lparr>pool_workers := False, pool_threads := []\<rparr>"
    by blast
  have c: "clock w' = clock w1 + 2" unfolding w' by simp
  from join_workers_all [OF jw _ j] obtain t where
    "j < length (pool_threads w)" "pool_threads w ! j \<le> t" "t < clock w1" "stop_sig env t"
    by auto
  with c show ?thesis by (intro conjI exI [of _ t]) simp_all
qed

lemma destroy_workers_blocks:
  assumes "\<forall>t. pool_threads w ! 0 \<le> t \<longrightarrow> \<not> stop_sig env t"
    and "pool_workers w" and "0 < run_n_buffers w" and "pool_threads w \<noteq> []"
  shows "capture_destroy_workers fuel env w =
           Out_of_fuel (w\<lparr>clock := max (clock w) (pool_threads w ! 0 + fuel)\<rparr>)"
proof -
  from assms(3) have "0 < unat (run_n_buffers w)" by (simp add: word_less_nat_alt)
  with assms(4) have "join_workers fuel env (unat (run_n_buffers w)) 0 w
               = Out_of_fuel (w\<lparr>clock := max (clock w) (pool_threads w ! 0 + fuel)\<rparr>)"
    by (subst join_workers.simps) (simp add: join_thread_blocks [OF assms(1)])
  with assms(2) show ?thesis by (simp add: capture_destroy_workers_def)
qed

lemma destroy_empty_pool:
  assumes "pool_workers w" and "run_n_buffers w = 0"
    and "pthread_ret env (clock w) = 0" and "pthread_ret env (Suc (clock w)) = 0"
  shows "capture_destroy_workers fuel env w =
           Returned () ((emit Ev_free (step (Ev_pool Mutex_destroy 0)
                                        (step (Ev_pool Cond_destroy 0) w)))
                          \<lparr>pool_workers := False, pool_threads := []\<rparr>)"
proof -
  have "join_workers fuel env 0 0 w = Returned () w"
    by (subst join_workers.simps) simp
  with assms show ?thesis
    by (simp add: capture_destroy_workers_def assert_pthread_cases)
qed

lemma calm_teardown:
  "capture_destroy_workers 4 (calm_env 3) session_world =
     Returned ()
       \<lparr>clock = 12,
        trace = [Ev_worker 0 Thread_join 0, Ev_worker 0 Cond_destroy 0,
                 Ev_worker 0 Mutex_destroy 0, Ev_worker 1 Thread_join 0,
                 Ev_worker 1 Cond_destroy 0, Ev_worker 1 Mutex_destroy 0,
                 Ev_pool Cond_destroy 0, Ev_pool Mutex_destroy 0, Ev_free],
        run_fd = 3, run_n_buffers = 2, run_capturing = True, pool_workers = False,
        pool_threads = []\<rparr>"
  by code_simp

lemma calm_pool:
  "capture_init_workers (calm_env 3) (session_world\<lparr>clock := 4\<rparr>) =
     Returned 0
       \<lparr>clock = 13,
        trace = [Ev_calloc 2 True, Ev_pool Mutex_init 0, Ev_pool Cond_init 0,
                 Ev_worker 0 Mutex_init 0, Ev_worker 0 Cond_init 0,
                 Ev_worker 0 Thread_create 0, Ev_worker 1 Mutex_init 0,
                 Ev_worker 1 Cond_init 0, Ev_worker 1 Thread_create 0],
        run_fd = 3, run_n_buffers = 2, run_capturing = True, pool_workers = True,
        pool_threads = [10, 13]\<rparr>"
  by code_simp

text \<open>
  Claim C8, as the spec states it, fails: a teardown can complete while stop is not
  asserted, when there is no thread to join. With the stop flag never asserted,
  \<open>_capture_destroy_workers\<close> returns at once when \<open>pool->workers\<close> is \<open>NULL\<close> (as it is
  before the first session and after a failed \<open>calloc\<close>), it returns when the pool
  exists and \<open>n_buffers\<close> is 0, and the teardown at the start of the first session
  initialisation completes, the whole of \<open>_capture_init\<close> returning 0.
\<close>

theorem teardown_without_stop:
  "capture_destroy_workers 1 never_stop_env fresh_world = Returned () fresh_world \<and>
   capture_destroy_workers 1 never_stop_env empty_pool_world =
     Returned ()
       \<lparr>clock = 2, trace = [Ev_pool Cond_destroy 0, Ev_pool Mutex_destroy 0, Ev_free],
        run_fd = 3, run_n_buffers = 0, run_capturing = True, pool_workers = False,
        pool_threads = []\<rparr> \<and>
   capture_init 1 never_stop_env scenario_dev fresh_world =
     Returned 0
       \<lparr>clock = 12,
        trace = [Ev_close, Ev_open 0, Ev_streamon 0, Ev_calloc 2 True,
                 Ev_pool Mutex_init 0, Ev_pool Cond_init 0, Ev_worker 0 Mutex_init 0,
                 Ev_worker 0 Cond_init 0, Ev_worker 0 Thread_create 0,
                 Ev_worker 1 Mutex_init 0, Ev_worker 1 Cond_init 0,
                 Ev_worker 1 Thread_create 0],
        run_fd = 3, run_n_buffers = 2, run_capturing = True, pool_workers = True,
        pool_threads = [9, 12]\<rparr>"
  by code_simp

text \<open>
  Claim C8, amended. The body of a worker thread returns, given enough fuel, if and
  only if the stop flag is asserted at some moment from the thread's start on, and
  when it returns the flag was asserted at its last read. A pool that
  \<open>_capture_init_workers\<close> has built holds one thread for each of the \<open>n_buffers\<close>
  buffers, each running from a moment of that call. For a pool that exists, and every
  worker \<open>j\<close> of it: when \<open>_capture_destroy_workers\<close> returns, the flag was asserted at
  some moment between the creation of that worker's thread and the return, and, the
  flag being a latch, it is asserted at the return; the same holds for \<open>_capture_init\<close>,
  whose first action is that teardown. If the flag is never asserted from the creation
  of the first worker's thread on, neither of the two comes back, whatever the fuel.
  Where there is no thread to join the teardown waits for nothing: with
  \<open>pool->workers\<close> \<open>NULL\<close> it returns at once, changing nothing, and with a pool of no
  workers it returns after destroying the pool's condition variable and mutex and
  freeing the array.
\<close>

theorem workers_end_only_with_stop:
  "((\<exists>fuel w'. capture_worker_thread fuel env w = Returned () w') \<longleftrightarrow>
      (\<exists>t. clock w \<le> t \<and> stop_sig env t)) \<and>
   (capture_worker_thread fuel env w = Returned u wa \<longrightarrow>
      clock w < clock wa \<and> stop_sig env (clock wa - 1)) \<and>
   (capture_init_workers env w = Returned 0 v \<longrightarrow>
      length (pool_threads v) = unat (run_n_buffers v) \<and>
      (\<forall>s\<in>set (pool_threads v). clock w < s \<and> s \<le> clock v)) \<and>
   (pool_workers w \<and> j < unat (run_n_buffers w) \<longrightarrow>
      (capture_destroy_workers fuel env w = Returned u wb \<longrightarrow>
         j < length (pool_threads w) \<and>
         (\<exists>t. pool_threads w ! j \<le> t \<and> t < clock wb \<and> stop_sig env t) \<and>
         (latched env \<longrightarrow> stop_sig env (clock wb))) \<and>
      (capture_init fuel env dev w = Returned r wc \<longrightarrow>
         (\<exists>t. pool_threads w ! j \<le> t \<and> t < clock wc \<and> stop_sig env t) \<and>
         (latched env \<longrightarrow> stop_sig env (clock wc)))) \<and>
   (pool_workers w \<and> 0 < run_n_buffers w \<and> pool_threads w \<noteq> [] \<and>
    (\<forall>t. pool_threads w ! 0 \<le> t \<longrightarrow> \<not> stop_sig env t) \<longrightarrow>
      (\<exists>w'. capture_destroy_workers fuel env w = Out_of_fuel w') \<and>
      (\<exists>w'. capture_init fuel env dev w = Out_of_fuel w')) \<and>
   (\<not> pool_workers w \<longrightarrow> capture_destroy_workers fuel env w = Returned () w) \<and>
   (pool_workers w \<and> run_n_buffers w = 0 \<and>
    pthread_ret env (clock w) = 0 \<and> pthread_ret env (Suc (clock w)) = 0 \<longrightarrow>
      capture_destroy_workers fuel env w =
        Returned () ((emit Ev_free (step (Ev_pool Mutex_destroy 0)
                                     (step (Ev_pool Cond_destroy 0) w)))
                       \<lparr>pool_workers := False, pool_threads := []\<rparr>))"
proof -
  have 1: "(\<exists>fuel w'. capture_worker_thread fuel env w = Returned () w') \<longleftrightarrow>
      (\<exists>t. clock w \<le> t \<and> stop_sig env t)"
  proof
    assume "\<exists>fuel w'. capture_worker_thread fuel env w = Returned () w'"
    then obtain fuel w' where r: "capture_worker_thread fuel env w = Returned () w'" by blast
    from worker_thread_Returned [OF r] have "clock w \<le> clock w' - 1 \<and> stop_sig env (clock w' - 1)"
      by auto
    then show "\<exists>t. clock w \<le> t \<and> stop_sig env t" by blast
  next
    assume "\<exists>t. clock w \<le> t \<and> stop_sig env t"
    then obtain t where "stop_sig env t" "clock w \<le> t" by blast
    from worker_thread_enough_fuel [OF this] show
      "\<exists>fuel w'. capture_worker_thread fuel env w = Returned () w'" by blast
  qed
  have 2: "capture_worker_thread fuel env w = Returned u wa \<longrightarrow>
      clock w < clock wa \<and> stop_sig env (clock wa - 1)"
    using worker_thread_Returned [of fuel env w u wa] by blast
  have 3: "capture_init_workers env w = Returned 0 v \<longrightarrow>
      length (pool_threads v) = unat (run_n_buffers v) \<and>
      (\<forall>s\<in>set (pool_threads v). clock w < s \<and> s \<le> clock v)"
    using init_workers_threads [of env w v] by blast
  have 4: "j < length (pool_threads w) \<and>
         (\<exists>t. pool_threads w ! j \<le> t \<and> t < clock wb \<and> stop_sig env t) \<and>
         (latched env \<longrightarrow> stop_sig env (clock wb))"
    if p: "pool_workers w \<and> j < unat (run_n_buffers w)"
      and r: "capture_destroy_workers fuel env w = Returned u wb"
  proof -
    from p have pw: "pool_workers w" and jn: "j < unat (run_n_buffers w)" by simp_all
    from destroy_workers_all [OF r pw jn] obtain t where
      l: "j < length (pool_threads w)" and
      t: "pool_threads w ! j \<le> t" "t < clock wb" "stop_sig env t" by blast
    have "latched env \<longrightarrow> stop_sig env (clock wb)"
      using latched_mono [of env t "clock wb"] t by simp
    with l t show ?thesis by blast
  qed
  have 5: "(\<exists>t. pool_threads w ! j \<le> t \<and> t < clock wc \<and> stop_sig env t) \<and>
         (latched env \<longrightarrow> stop_sig env (clock wc))"
    if p: "pool_workers w \<and> j < unat (run_n_buffers w)"
      and r: "capture_init fuel env dev w = Returned r wc"
  proof -
    from p have pw: "pool_workers w" and jn: "j < unat (run_n_buffers w)" by simp_all
    from capture_init_after_destroy [OF r] obtain w1 where
      d: "capture_destroy_workers fuel env w = Returned () w1" and c: "clock w1 < clock wc"
      by blast
    from destroy_workers_all [OF d pw jn] obtain t where
      t: "pool_threads w ! j \<le> t" "t < clock w1" "stop_sig env t" by blast
    from t(2) c have lt: "t < clock wc" by simp
    have "latched env \<longrightarrow> stop_sig env (clock wc)"
      using latched_mono [of env t "clock wc"] t(3) lt by simp
    with t lt show ?thesis by blast
  qed
  have 6: "(\<exists>w'. capture_destroy_workers fuel env w = Out_of_fuel w') \<and>
         (\<exists>w'. capture_init fuel env dev w = Out_of_fuel w')"
    if h: "pool_workers w \<and> 0 < run_n_buffers w \<and> pool_threads w \<noteq> [] \<and>
           (\<forall>t. pool_threads w ! 0 \<le> t \<longrightarrow> \<not> stop_sig env t)"
  proof -
    from h have pw: "pool_workers w" and n: "0 < run_n_buffers w"
      and l: "pool_threads w \<noteq> []"
      and ns: "\<forall>t. pool_threads w ! 0 \<le> t \<longrightarrow> \<not> stop_sig env t" by blast+
    note d = destroy_workers_blocks [OF ns pw n l, of fuel]
    then have "capture_init fuel env dev w =
                 Out_of_fuel (w\<lparr>clock := max (clock w) (pool_threads w ! 0 + fuel)\<rparr>)"
      by (simp add: capture_init_def)
    with d show ?thesis by blast
  qed
  have 7: "\<not> pool_workers w \<longrightarrow> capture_destroy_workers fuel env w = Returned () w"
    by (simp add: capture_destroy_workers_def)
  have 8: "pool_workers w \<and> run_n_buffers w = 0 \<and>
    pthread_ret env (clock w) = 0 \<and> pthread_ret env (Suc (clock w)) = 0 \<longrightarrow>
      capture_destroy_workers fuel env w =
        Returned () ((emit Ev_free (step (Ev_pool Mutex_destroy 0)
                                     (step (Ev_pool Cond_destroy 0) w)))
                       \<lparr>pool_workers := False, pool_threads := []\<rparr>)"
    using destroy_empty_pool [of w env fuel] by blast
  from 1 2 3 4 5 6 7 8 show ?thesis by blast
qed

text \<open>
  A pool of two workers whose threads run from moment 0: with stop asserted from
  moment 3 on the teardown comes back at moment 12; with stop never asserted it does
  not come back. A pool built from moment 4 on holds two threads, running from moments
  10 and 13. Without a pool, and with an empty one, the teardown comes back though
  stop is never asserted.
\<close>

theorem workers_end_only_with_stop_witness:
  "pool_workers session_world \<and> 1 < unat (run_n_buffers session_world) \<and>
   (\<exists>fuel w'. capture_worker_thread fuel (calm_env 3) session_world = Returned () w') \<and>
   (\<exists>v. capture_init_workers (calm_env 3) (session_world\<lparr>clock := 4\<rparr>) = Returned 0 v \<and>
      length (pool_threads v) = unat (run_n_buffers v) \<and> pool_threads v = [10, 13]) \<and>
   (\<exists>wb. capture_destroy_workers 4 (calm_env 3) session_world = Returned () wb \<and>
      (\<exists>t. pool_threads session_world ! 1 \<le> t \<and> t < clock wb \<and> stop_sig (calm_env 3) t) \<and>
      stop_sig (calm_env 3) (clock wb)) \<and>
   (\<exists>w'. capture_destroy_workers 5 never_stop_env session_world = Out_of_fuel w') \<and>
   (\<exists>w'. capture_init 5 never_stop_env scenario_dev session_world = Out_of_fuel w') \<and>
   capture_destroy_workers 1 never_stop_env fresh_world = Returned () fresh_world \<and>
   (\<exists>w'. capture_destroy_workers 1 never_stop_env empty_pool_world = Returned () w' \<and>
      clock w' = 2 \<and> \<not> pool_workers w')"
proof -
  have p: "pool_workers session_world \<and> 1 < unat (run_n_buffers session_world)"
    by (simp add: session_world_def)
  have p0: "pool_workers session_world \<and> 0 < run_n_buffers session_world \<and>
      pool_threads session_world \<noteq> [] \<and>
      (\<forall>t. pool_threads session_world ! 0 \<le> t \<longrightarrow> \<not> stop_sig never_stop_env t)"
    by (simp add: session_world_def never_stop_env_def)
  have s: "\<exists>t. clock session_world \<le> t \<and> stop_sig (calm_env 3) t"
    by (rule exI [of _ 3]) (simp add: session_world_def calm_env_def)
  have la: "latched (calm_env 3)"
    by (simp add: latched_def calm_env_def)
  from calm_teardown obtain x where
    r: "capture_destroy_workers 4 (calm_env 3) session_world = Returned () x" by blast
  from calm_pool obtain y where
    i: "capture_init_workers (calm_env 3) (session_world\<lparr>clock := 4\<rparr>) = Returned 0 y"
    and y: "pool_threads y = [10, 13]" by simp
  note a = workers_end_only_with_stop
    [where env = "calm_env 3" and w = session_world and fuel = 4 and wb = x
       and u = "()" and dev = scenario_dev and j = 1]
  note b = workers_end_only_with_stop
    [where env = never_stop_env and w = session_world and fuel = 5 and dev = scenario_dev]
  note c = workers_end_only_with_stop
    [where env = "calm_env 3" and w = "session_world\<lparr>clock := 4\<rparr>" and v = y]
  note d = workers_end_only_with_stop
    [where env = never_stop_env and w = fresh_world and fuel = 1]
  note e = workers_end_only_with_stop
    [where env = never_stop_env and w = empty_pool_world and fuel = 1]
  from a [THEN conjunct1] s
  have 1: "\<exists>fuel w'. capture_worker_thread fuel (calm_env 3) session_world = Returned () w'"
    by (rule iffD2)
  from c [THEN conjunct2, THEN conjunct2, THEN conjunct1, rule_format, OF i]
  have "length (pool_threads y) = unat (run_n_buffers y)" by (rule conjunct1)
  with i y have 2:
    "\<exists>v. capture_init_workers (calm_env 3) (session_world\<lparr>clock := 4\<rparr>) = Returned 0 v \<and>
      length (pool_threads v) = unat (run_n_buffers v) \<and> pool_threads v = [10, 13]"
    by blast
  note a4 = a [THEN conjunct2, THEN conjunct2, THEN conjunct2, THEN conjunct1, rule_format,
               OF p, THEN conjunct1, rule_format, OF r]
  from a4 la have
    "(\<exists>t. pool_threads session_world ! 1 \<le> t \<and> t < clock x \<and> stop_sig (calm_env 3) t) \<and>
      stop_sig (calm_env 3) (clock x)"
    by blast
  with r have 3:
    "\<exists>wb. capture_destroy_workers 4 (calm_env 3) session_world = Returned () wb \<and>
      (\<exists>t. pool_threads session_world ! 1 \<le> t \<and> t < clock wb \<and> stop_sig (calm_env 3) t) \<and>
      stop_sig (calm_env 3) (clock wb)"
    by blast
  note 4 = b [THEN conjunct2, THEN conjunct2, THEN conjunct2, THEN conjunct2, THEN conjunct1,
              rule_format, OF p0]
  have "\<not> pool_workers fresh_world" by (simp add: fresh_world_def)
  with d [THEN conjunct2, THEN conjunct2, THEN conjunct2, THEN conjunct2, THEN conjunct2,
          THEN conjunct1]
  have 5: "capture_destroy_workers 1 never_stop_env fresh_world = Returned () fresh_world"
    by (rule mp)
  have "pool_workers empty_pool_world \<and> run_n_buffers empty_pool_world = 0 \<and>
    pthread_ret never_stop_env (clock empty_pool_world) = 0 \<and>
    pthread_ret never_stop_env (Suc (clock empty_pool_world)) = 0"
    by (simp add: empty_pool_world_def never_stop_env_def calm_env_def)
  with e [THEN conjunct2, THEN conjunct2, THEN conjunct2, THEN conjunct2, THEN conjunct2,
          THEN conjunct2]
  have "capture_destroy_workers 1 never_stop_env empty_pool_world =
        Returned () ((emit Ev_free (step (Ev_pool Mutex_destroy 0)
                                     (step (Ev_pool Cond_destroy 0) empty_pool_world)))
                       \<lparr>pool_workers := False, pool_threads := []\<rparr>)"
    by (rule mp)
  then have 6: "\<exists>w'. capture_destroy_workers 1 never_stop_env empty_pool_world = Returned () w' \<and>
      clock w' = 2 \<and> \<not> pool_workers w'"
    by (simp add: empty_pool_world_def)
  from p 1 2 3 4 5 6 show ?thesis by blast
qed

subsection \<open>A failing stop is not escalated\<close>

text \<open>
  Claim C9. When \<open>_capture_control(dev, false)\<close> is called with the capturing flag true
  and VIDIOC_STREAMOFF fails, the call returns 0 and the flag becomes false. The only
  call that returns an error is a start (\<open>enable\<close> true, flag false) whose
  VIDIOC_STREAMON fails, and that call leaves the flag as it was; every other call
  returns 0 and leaves the flag equal to \<open>enable\<close>.
\<close>

theorem control_stop_failure_ignored:
  "(run_capturing w \<and> stream_ret env (clock w) < 0 \<longrightarrow>
      capture_control env False w =
        (0, (step (Ev_streamoff (stream_ret env (clock w))) w)\<lparr>run_capturing := False\<rparr>)) \<and>
   (fst (capture_control env enable w) = - 1 \<longleftrightarrow>
      enable \<and> \<not> run_capturing w \<and> stream_ret env (clock w) < 0) \<and>
   (fst (capture_control env enable w) = - 1 \<longrightarrow>
      run_capturing (snd (capture_control env enable w)) = run_capturing w) \<and>
   (fst (capture_control env enable w) \<noteq> - 1 \<longrightarrow>
      fst (capture_control env enable w) = 0 \<and>
      run_capturing (snd (capture_control env enable w)) = enable)"
  by (auto simp add: capture_control_def Let_def)

text \<open>A failing stop in a running session, and a failing start.\<close>

theorem control_stop_failure_ignored_witness:
  "run_capturing session_world \<and> stream_ret dead_stream_env (clock session_world) < 0 \<and>
   capture_control dead_stream_env False session_world =
     (0, session_world\<lparr>clock := 1, trace := [Ev_streamoff (- 1)], run_capturing := False\<rparr>) \<and>
   fst (capture_control dead_stream_env True fresh_world) = - 1 \<and>
   run_capturing (snd (capture_control dead_stream_env True fresh_world)) = False"
  using control_stop_failure_ignored [of session_world dead_stream_env False]
        control_stop_failure_ignored [of fresh_world dead_stream_env True]
  by (simp add: dead_stream_env_def calm_env_def session_world_def fresh_world_def
        step_def tick_def emit_def)

subsection \<open>A dequeued buffer with an index out of range\<close>

text \<open>
  Claim C10. When VIDIOC_DQBUF succeeds (a non-negative return value) with an index
  that is not below \<open>dev->run->n_buffers\<close>, \<open>_capture_grab_buffer\<close> returns \<open>- 1\<close>, and
  a pass of the mainloop that reaches it leaves the loop through \<open>break\<close> having made
  exactly two calls, \<open>select\<close> and the VIDIOC_DQBUF: no VIDIOC_QBUF follows, so the
  dequeued buffer is not given back to the driver when the session ends.
\<close>

theorem invalid_index_not_released:
  "\<not> stop_sig env (clock w) \<and>
   0 < sel_retval (select_res env (Suc (clock w))) \<and> sel_read (select_res env (Suc (clock w))) \<and>
   dqbuf_res env (Suc (Suc (clock w))) = (r, i, used) \<and> 0 \<le> r \<and> run_n_buffers w \<le> i
   \<longrightarrow>
     fst (capture_grab_buffer env (step (Ev_select (timeout dev)) (tick w))) = - 1 \<and>
     mainloop (Suc n) env dev frames_count w =
       Returned Exit_break
         (w\<lparr>clock := clock w + 3,
            trace := trace w @ [Ev_select (timeout dev), Ev_dqbuf r i used]\<rparr>) \<and>
     dequeued [Ev_select (timeout dev), Ev_dqbuf r i used] = [i] \<and>
     released [Ev_select (timeout dev), Ev_dqbuf r i used] = []"
  by (simp add: read_stop_def mainloop_body_def frame_ready_def grab_eq Let_def
        step_def tick_def emit_def)

text \<open>Two buffers, and the driver hands out index 7.\<close>

theorem invalid_index_not_released_witness:
  "fst (capture_grab_buffer stray_index_env (step (Ev_select 2) (tick session_world))) = - 1 \<and>
   mainloop 1 stray_index_env scenario_dev 0 session_world =
     Returned Exit_break
       (session_world\<lparr>clock := 3, trace := [Ev_select 2, Ev_dqbuf 0 7 9000]\<rparr>)"
  using invalid_index_not_released
    [where env = stray_index_env and w = session_world and dev = scenario_dev
       and frames_count = 0 and n = 0 and r = 0 and i = 7 and used = 9000]
  by (simp add: stray_index_env_def calm_env_def session_world_def scenario_dev_def)

end
